theory Spec2Isabelle
  imports Complex_Main
begin

section \<open>Data model (types/patient.ts)\<close>

text \<open>
  JavaScript numbers are modelled as reals (values) and integers (millisecond
  timestamps, intervals). The string unions of the source are datatypes.
\<close>

datatype PatientStatus = Stable | Warning | Critical

datatype Trend = TrendNormal | TrendWarning | TrendCritical

datatype VitalType = HeartRate | Systolic | Diastolic | Spo2 | Temperature

record VitalSign =
  timestamp :: int
  "value" :: real

record VitalSigns =
  heartRate :: "VitalSign list"
  systolic :: "VitalSign list"
  diastolic :: "VitalSign list"
  spo2 :: "VitalSign list"
  temperature :: "VitalSign list"

text \<open>\<open>vitals[vitalType]\<close> and \<open>vitals[vitalType] = signs\<close> on a bundle.\<close>

fun vitals_get :: "VitalSigns \<Rightarrow> VitalType \<Rightarrow> VitalSign list" where
  "vitals_get v HeartRate = heartRate v"
| "vitals_get v Systolic = systolic v"
| "vitals_get v Diastolic = diastolic v"
| "vitals_get v Spo2 = spo2 v"
| "vitals_get v Temperature = temperature v"

fun vitals_set :: "VitalSigns \<Rightarrow> VitalType \<Rightarrow> VitalSign list \<Rightarrow> VitalSigns" where
  "vitals_set v HeartRate s = v\<lparr>heartRate := s\<rparr>"
| "vitals_set v Systolic s = v\<lparr>systolic := s\<rparr>"
| "vitals_set v Diastolic s = v\<lparr>diastolic := s\<rparr>"
| "vitals_set v Spo2 s = v\<lparr>spo2 := s\<rparr>"
| "vitals_set v Temperature s = v\<lparr>temperature := s\<rparr>"

section \<open>The ambient effects: \<open>Math.random()\<close> and \<open>Date.now()\<close>\<close>

text \<open>
  The environment holds the draws that \<open>Math.random()\<close> will return and the
  readings that \<open>Date.now()\<close> will return, in call order. Each call takes the
  head and leaves the rest.
\<close>

record env =
  randoms :: "nat \<Rightarrow> real"
  clock :: "nat \<Rightarrow> int"

definition Math_random :: "env \<Rightarrow> real \<times> env" where
  "Math_random e = (randoms e 0, e\<lparr>randoms := (\<lambda>n. randoms e (Suc n))\<rparr>)"

definition Date_now :: "env \<Rightarrow> int \<times> env" where
  "Date_now e = (clock e 0, e\<lparr>clock := (\<lambda>n. clock e (Suc n))\<rparr>)"

section \<open>Vital generation (features/dashboard/utils/vital-generation.ts)\<close>

record VitalRange =
  mean :: real
  stdDev :: real
  minV :: real
  maxV :: real

fun VITAL_RANGES :: "VitalType \<Rightarrow> VitalRange" where
  "VITAL_RANGES HeartRate = \<lparr>mean = 75, stdDev = 8, minV = 45, maxV = 150\<rparr>"
| "VITAL_RANGES Systolic = \<lparr>mean = 120, stdDev = 10, minV = 80, maxV = 180\<rparr>"
| "VITAL_RANGES Diastolic = \<lparr>mean = 80, stdDev = 8, minV = 50, maxV = 110\<rparr>"
| "VITAL_RANGES Spo2 = \<lparr>mean = 98, stdDev = 15 / 10, minV = 85, maxV = 100\<rparr>"
| "VITAL_RANGES Temperature = \<lparr>mean = 368 / 10, stdDev = 3 / 10, minV = 35, maxV = 40\<rparr>"

text \<open>The loop \<open>while (u1 === 0) u1 = Math.random()\<close>; it never returns on a
  source that yields 0 for ever, which is the value \<open>None\<close>.\<close>

partial_function (option) resample :: "real \<Rightarrow> env \<Rightarrow> (real \<times> env) option" where
  "resample u1 e =
     (if u1 = 0 then resample (fst (Math_random e)) (snd (Math_random e))
      else Some (u1, e))"

definition gaussianRandom :: "real \<Rightarrow> real \<Rightarrow> env \<Rightarrow> (real \<times> env) option" where
  "gaussianRandom m sd e =
     (case Math_random e of (u, e1) \<Rightarrow>
        (case resample u e1 of
           None \<Rightarrow> None
         | Some (u1, e2) \<Rightarrow>
             (case Math_random e2 of (u2, e3) \<Rightarrow>
                (let z0 = sqrt (- 2 * ln u1) * cos (2 * pi * u2)
                 in Some (z0 * sd + m, e3)))))"

definition clamp :: "real \<Rightarrow> real \<Rightarrow> real \<Rightarrow> real" where
  "clamp v lo hi = max lo (min hi v)"

definition generateBaselineValue :: "VitalType \<Rightarrow> Trend \<Rightarrow> env \<Rightarrow> (real \<times> env) option" where
  "generateBaselineValue vitalType trend e =
     (let range = VITAL_RANGES vitalType;
          sampled =
            (case trend of
               TrendNormal \<Rightarrow> gaussianRandom (mean range) (stdDev range) e
             | TrendWarning \<Rightarrow>
                 (case Math_random e of (r, e1) \<Rightarrow>
                    (let warningMean =
                           (if r > 5 / 10 then mean range * (115 / 100) else mean range * (9 / 10))
                     in gaussianRandom warningMean (stdDev range * (12 / 10)) e1))
             | TrendCritical \<Rightarrow>
                 (case Math_random e of (r, e1) \<Rightarrow>
                    (let criticalMean =
                           (if r > 5 / 10 then mean range * (13 / 10) else mean range * (8 / 10))
                     in gaussianRandom criticalMean (stdDev range * (15 / 10)) e1)))
      in case sampled of
           None \<Rightarrow> None
         | Some (v, e') \<Rightarrow> Some (clamp v (minV range) (maxV range), e'))"

definition driftStrength :: real where
  "driftStrength = 8 / 100"

definition generateVitalUpdate :: "real \<Rightarrow> VitalType \<Rightarrow> Trend \<Rightarrow> env \<Rightarrow> real \<times> env" where
  "generateVitalUpdate currentValue vitalType trendBias e =
     (let range = VITAL_RANGES vitalType
      in case Math_random e of (r0, e0) \<Rightarrow>
        (let variation = currentValue * (15 / 1000) * (r0 * 2 - 1);
             (drift, e') =
               (case trendBias of
                  TrendNormal \<Rightarrow> ((mean range - currentValue) * driftStrength * (15 / 10), e0)
                | TrendWarning \<Rightarrow>
                    (case Math_random e0 of (r1, e1) \<Rightarrow>
                       if r1 < 5 / 100 then
                         (case Math_random e1 of (r2, e2) \<Rightarrow>
                            (let warningTarget =
                                   (if r2 > 5 / 10 then mean range * (112 / 100)
                                    else mean range * (92 / 100))
                             in ((warningTarget - currentValue) * driftStrength, e2)))
                       else ((mean range - currentValue) * driftStrength * (8 / 10), e1))
                | TrendCritical \<Rightarrow>
                    (case Math_random e0 of (r1, e1) \<Rightarrow>
                       if r1 < 8 / 100 then
                         (case Math_random e1 of (r2, e2) \<Rightarrow>
                            (let criticalTarget =
                                   (if r2 > 5 / 10 then maxV range * (85 / 100)
                                    else minV range * (115 / 100))
                             in ((criticalTarget - currentValue) * driftStrength * (15 / 10), e2)))
                       else ((mean range - currentValue) * driftStrength * (5 / 10), e1)));
             nextValue = currentValue + variation + drift
         in (clamp nextValue (minV range) (maxV range), e')))"

text \<open>The \<open>for\<close> loop of \<open>generateVitalHistory\<close>, from index \<open>i\<close>.\<close>

function history_loop ::
  "VitalType \<Rightarrow> nat \<Rightarrow> int \<Rightarrow> Trend \<Rightarrow> int \<Rightarrow> nat \<Rightarrow> real \<Rightarrow> VitalSign list \<Rightarrow> env
     \<Rightarrow> VitalSign list \<times> env" where
  "history_loop vitalType count intervalMs trend now i currentValue history e =
     (if i < count then
        (if i < count - 1 then
           history_loop vitalType count intervalMs trend now (i + 1)
             (fst (generateVitalUpdate currentValue vitalType trend e))
             (history @ [\<lparr>timestamp = now - (int count - int i - 1) * intervalMs,
                          value = currentValue\<rparr>])
             (snd (generateVitalUpdate currentValue vitalType trend e))
         else
           history_loop vitalType count intervalMs trend now (i + 1) currentValue
             (history @ [\<lparr>timestamp = now - (int count - int i - 1) * intervalMs,
                          value = currentValue\<rparr>])
             e)
      else (history, e))"
  by pat_completeness auto
termination
  by (relation "measure (\<lambda>(vitalType, count, intervalMs, trend, now, i, rest). count - i)") auto

declare history_loop.simps [simp del]

definition generateVitalHistory ::
  "VitalType \<Rightarrow> nat \<Rightarrow> int \<Rightarrow> Trend \<Rightarrow> env \<Rightarrow> (VitalSign list \<times> env) option" where
  "generateVitalHistory vitalType count intervalMs trend e =
     (case Date_now e of (now, e1) \<Rightarrow>
        (case generateBaselineValue vitalType trend e1 of
           None \<Rightarrow> None
         | Some (currentValue, e2) \<Rightarrow>
             Some (history_loop vitalType count intervalMs trend now 0 currentValue [] e2)))"

definition initializeAllVitals :: "Trend \<Rightarrow> env \<Rightarrow> (VitalSigns \<times> env) option" where
  "initializeAllVitals patientTrend e =
     (case generateVitalHistory HeartRate 10 30000 patientTrend e of
        None \<Rightarrow> None
      | Some (hr, e1) \<Rightarrow>
     (case generateVitalHistory Systolic 10 30000 patientTrend e1 of
        None \<Rightarrow> None
      | Some (sy, e2) \<Rightarrow>
     (case generateVitalHistory Diastolic 10 30000 patientTrend e2 of
        None \<Rightarrow> None
      | Some (di, e3) \<Rightarrow>
     (case generateVitalHistory Spo2 10 30000 patientTrend e3 of
        None \<Rightarrow> None
      | Some (sp, e4) \<Rightarrow>
     (case generateVitalHistory Temperature 10 30000 patientTrend e4 of
        None \<Rightarrow> None
      | Some (te, e5) \<Rightarrow>
          Some (\<lparr>heartRate = hr, systolic = sy, diastolic = di, spo2 = sp,
                  temperature = te\<rparr>, e5))))))"

section \<open>Thresholds and status (features/dashboard/utils/vital-thresholds.ts)\<close>

record VitalThreshold =
  normal :: "real \<times> real"
  warning :: "real \<times> real"
  critical :: "real \<times> real"

fun THRESHOLDS :: "VitalType \<Rightarrow> VitalThreshold" where
  "THRESHOLDS HeartRate = \<lparr>normal = (60, 100), warning = (50, 120), critical = (0, 200)\<rparr>"
| "THRESHOLDS Systolic = \<lparr>normal = (90, 140), warning = (80, 160), critical = (0, 300)\<rparr>"
| "THRESHOLDS Diastolic = \<lparr>normal = (60, 90), warning = (50, 100), critical = (0, 200)\<rparr>"
| "THRESHOLDS Spo2 = \<lparr>normal = (95, 100), warning = (90, 95), critical = (0, 90)\<rparr>"
| "THRESHOLDS Temperature =
     \<lparr>normal = (36, 375 / 10), warning = (355 / 10, 385 / 10), critical = (0, 50)\<rparr>"

definition getVitalStatus :: "real \<Rightarrow> VitalType \<Rightarrow> PatientStatus" where
  "getVitalStatus v vitalType =
     (let threshold = THRESHOLDS vitalType
      in if v \<ge> fst (normal threshold) \<and> v \<le> snd (normal threshold) then Stable
         else if v \<ge> fst (warning threshold) \<and> v \<le> snd (warning threshold) then Warning
         else Critical)"

definition getCurrentValue :: "VitalSign list \<Rightarrow> real option" where
  "getCurrentValue signs =
     (if length signs = 0 then None else Some (value (signs ! (length signs - 1))))"

definition calculatePatientStatus :: "VitalSigns \<Rightarrow> PatientStatus" where
  "calculatePatientStatus vitals =
     (let hr = getCurrentValue (heartRate vitals);
          sy = getCurrentValue (systolic vitals);
          di = getCurrentValue (diastolic vitals);
          sp = getCurrentValue (spo2 vitals);
          te = getCurrentValue (temperature vitals);
          hasAnyData = list_ex (\<lambda>v. v \<noteq> None) [hr, sy, di, sp, te]
      in if \<not> hasAnyData then Stable
         else
           (let statuses =
                  (case hr of None \<Rightarrow> [] | Some v \<Rightarrow> [getVitalStatus v HeartRate]) @
                  (case sy of None \<Rightarrow> [] | Some v \<Rightarrow> [getVitalStatus v Systolic]) @
                  (case di of None \<Rightarrow> [] | Some v \<Rightarrow> [getVitalStatus v Diastolic]) @
                  (case sp of None \<Rightarrow> [] | Some v \<Rightarrow> [getVitalStatus v Spo2]) @
                  (case te of None \<Rightarrow> [] | Some v \<Rightarrow> [getVitalStatus v Temperature])
            in if List.member statuses Critical then Critical
               else if List.member statuses Warning then Warning
               else Stable))"

definition getLatestValue :: "VitalSign list \<Rightarrow> real" where
  "getLatestValue signs =
     (if length signs = 0 then 0 else value (signs ! (length signs - 1)))"

section \<open>The store (stores/vitals-store.ts)\<close>

record VitalsState =
  patientVitals :: "string \<rightharpoonup> VitalSigns"
  isSimulating :: bool
  simulationInterval :: "nat option"

definition MAX_HISTORY_POINTS :: nat where
  "MAX_HISTORY_POINTS = 10"

definition initializeVitals ::
  "string \<Rightarrow> Trend \<Rightarrow> VitalsState \<Rightarrow> env \<Rightarrow> (VitalsState \<times> env) option" where
  "initializeVitals patientId initialTrend state e =
     (case initializeAllVitals initialTrend e of
        None \<Rightarrow> None
      | Some (vitals, e') \<Rightarrow>
          Some (state\<lparr>patientVitals := (patientVitals state)(patientId \<mapsto> vitals)\<rparr>, e'))"

text \<open>The body of \<open>vitalTypes.forEach\<close> in \<open>updateVitals\<close>: it reads the series of
  \<open>currentVitals\<close> and writes the series of \<open>updatedVitals\<close>.\<close>

definition updateOne ::
  "VitalSigns \<Rightarrow> Trend \<Rightarrow> VitalSigns \<times> env \<Rightarrow> VitalType \<Rightarrow> VitalSigns \<times> env" where
  "updateOne currentVitals trendBias acc vitalType =
     (case acc of (updatedVitals, e) \<Rightarrow>
        (let currentSigns = vitals_get currentVitals vitalType;
             lastValue =
               (if length currentSigns = 0 then 0
                else value (currentSigns ! (length currentSigns - 1)))
         in case generateVitalUpdate lastValue vitalType trendBias e of (newValue, e1) \<Rightarrow>
              (case Date_now e1 of (now, e2) \<Rightarrow>
                 (let newSign = \<lparr>timestamp = now, value = newValue\<rparr>;
                      appended = currentSigns @ [newSign];
                      updatedSigns =
                        (if length appended > MAX_HISTORY_POINTS then tl appended
                         else appended)
                  in (vitals_set updatedVitals vitalType updatedSigns, e2)))))"

definition updateVitals :: "string \<Rightarrow> VitalsState \<Rightarrow> env \<Rightarrow> VitalsState \<times> env" where
  "updateVitals patientId state e =
     (case patientVitals state patientId of
        None \<Rightarrow> (state, e)
      | Some currentVitals \<Rightarrow>
          (let currentStatus = calculatePatientStatus currentVitals;
               trendBias =
                 (case currentStatus of
                    Stable \<Rightarrow> TrendNormal
                  | Warning \<Rightarrow> TrendWarning
                  | Critical \<Rightarrow> TrendCritical);
               vitalTypes = [HeartRate, Systolic, Diastolic, Spo2, Temperature]
           in case foldl (updateOne currentVitals trendBias) (currentVitals, e) vitalTypes of
                (updatedVitals, e') \<Rightarrow>
                  (state\<lparr>patientVitals := (patientVitals state)(patientId \<mapsto> updatedVitals)\<rparr>,
                   e')))"

text \<open>The interval callback of \<open>startSimulation\<close>:
  \<open>patientIds.forEach((patientId) => get().updateVitals(patientId))\<close>; a sequence of
  ticks is the same fold over the concatenated rosters.\<close>

fun updateAll :: "string list \<Rightarrow> VitalsState \<Rightarrow> env \<Rightarrow> VitalsState \<times> env" where
  "updateAll [] state e = (state, e)"
| "updateAll (patientId # rest) state e =
     (case updateVitals patientId state e of (state', e') \<Rightarrow> updateAll rest state' e')"

section \<open>Auxiliary notions for the statements\<close>

text \<open>
  A vital has data and its latest sample classifies as the given status.
\<close>

definition latestIs :: "VitalSigns \<Rightarrow> PatientStatus \<Rightarrow> VitalType \<Rightarrow> bool" where
  "latestIs vitals st vt =
     (vitals_get vitals vt \<noteq> [] \<and>
      getVitalStatus (value (last (vitals_get vitals vt))) vt = st)"

text \<open>
  The environment after \<open>k\<close> further calls of \<open>Math.random()\<close>, and the
  sources on which the resampling loop of \<open>gaussianRandom\<close> cannot run for ever:
  from every position on, some later draw is not 0.
\<close>

definition drop_draws :: "nat \<Rightarrow> env \<Rightarrow> env" where
  "drop_draws k e = e\<lparr>randoms := (\<lambda>n. randoms e (n + k))\<rparr>"

definition nonzero_draws :: "env \<Rightarrow> bool" where
  "nonzero_draws e = (\<forall>k. \<exists>n. randoms e (k + n) \<noteq> 0)"

text \<open>
  The position of a vital type in the array \<open>vitalTypes\<close> of \<open>updateVitals\<close>
  and in the object literal of \<open>initializeAllVitals\<close>; the \<open>Date.now()\<close>
  readings of one call are taken in this order.
\<close>

fun vitalIndex :: "VitalType \<Rightarrow> nat" where
  "vitalIndex HeartRate = 0"
| "vitalIndex Systolic = 1"
| "vitalIndex Diastolic = 2"
| "vitalIndex Spo2 = 3"
| "vitalIndex Temperature = 4"

text \<open>
  Successive readings of the clock never decrease.
\<close>

definition monotone_clock :: "env \<Rightarrow> bool" where
  "monotone_clock e = (\<forall>i j. i \<le> j \<longrightarrow> clock e i \<le> clock e j)"

text \<open>
  Appending to a window of capacity 10: the sample goes to the end, and the oldest
  sample leaves when the window was full.
\<close>

definition slide :: "VitalSign list \<Rightarrow> VitalSign \<Rightarrow> VitalSign list" where
  "slide signs s = (if length signs < 10 then signs @ [s] else tl signs @ [s])"

definition window_ok :: "VitalSigns \<Rightarrow> bool" where
  "window_ok b = (\<forall>vt. length (vitals_get b vt) \<le> 10)"

definition ordered_upto :: "int \<Rightarrow> VitalSigns \<Rightarrow> bool" where
  "ordered_upto t b =
     (\<forall>vt. sorted (map timestamp (vitals_get b vt))
           \<and> (\<forall>x \<in> set (vitals_get b vt). timestamp x \<le> t))"

text \<open>
  The history as the specification words it: \<open>n\<close> samples, the first at time
  \<open>t\<close> with value \<open>v\<close>, each later one \<open>step\<close> milliseconds after its
  predecessor with the value advanced from the predecessor's value.
\<close>

fun history_from ::
  "VitalType \<Rightarrow> Trend \<Rightarrow> int \<Rightarrow> int \<Rightarrow> nat \<Rightarrow> real \<Rightarrow> env \<Rightarrow> VitalSign list \<times> env" where
  "history_from vt trend t step 0 v e = ([], e)"
| "history_from vt trend t step (Suc 0) v e = ([\<lparr>timestamp = t, value = v\<rparr>], e)"
| "history_from vt trend t step (Suc (Suc n)) v e =
     (case generateVitalUpdate v vt trend e of (v', e') \<Rightarrow>
        (case history_from vt trend (t + step) step (Suc n) v' e' of (h, e'') \<Rightarrow>
           (\<lparr>timestamp = t, value = v\<rparr> # h, e'')))"

text \<open>
  The shifted baseline as the specification words it: one draw fixes the direction,
  the sampling mean is the nominal mean times \<open>up\<close> or \<open>down\<close>, the standard
  deviation is widened by \<open>widen\<close>, and the sample is clamped.
\<close>

definition shifted_baseline ::
  "real \<Rightarrow> real \<Rightarrow> real \<Rightarrow> VitalType \<Rightarrow> env \<Rightarrow> (real \<times> env) option" where
  "shifted_baseline up down widen vt e =
     (case Math_random e of (r, e1) \<Rightarrow>
        map_option (\<lambda>(v, e'). (clamp v (minV (VITAL_RANGES vt)) (maxV (VITAL_RANGES vt)), e'))
          (gaussianRandom (mean (VITAL_RANGES vt) * (if r > 1 / 2 then up else down))
             (stdDev (VITAL_RANGES vt) * widen) e1))"

text \<open>
  One step of the walk as the specification words it: the current value plus noise
  plus a drift of \<open>(target - current) * 0.08 * mult\<close>, clamped.
\<close>

definition advance_toward :: "real \<Rightarrow> VitalType \<Rightarrow> real \<Rightarrow> real \<Rightarrow> real \<Rightarrow> real" where
  "advance_toward x vt noise target mult =
     clamp (x + noise + (target - x) * (8 / 100) * mult)
       (minV (VITAL_RANGES vt)) (maxV (VITAL_RANGES vt))"

text \<open>
  Concrete inputs on which the statements are exercised.
\<close>

definition steady_env :: env where
  "steady_env = \<lparr>randoms = (\<lambda>n. 1 / 4), clock = (\<lambda>n. 300000 + int n)\<rparr>"

definition one_sample :: "real \<Rightarrow> VitalSign list" where
  "one_sample v = [\<lparr>timestamp = 0, value = v\<rparr>]"

definition hr_only :: "real \<Rightarrow> VitalSigns" where
  "hr_only v =
     \<lparr>heartRate = one_sample v, systolic = [], diastolic = [], spo2 = [], temperature = []\<rparr>"

definition two_patients :: VitalsState where
  "two_patients =
     \<lparr>patientVitals = [''p1'' \<mapsto> hr_only 72, ''p2'' \<mapsto> hr_only 130],
      isSimulating = True, simulationInterval = Some 7\<rparr>"

definition worsen_env :: env where
  "worsen_env = \<lparr>randoms = (\<lambda>n. if n = 0 then 1 / 2 else 0), clock = (\<lambda>n. 300000 + int n)\<rparr>"

definition rewind_env :: env where
  "rewind_env = \<lparr>randoms = (\<lambda>n. 1 / 4), clock = (\<lambda>n. if n < 5 then 1700000300000 else 1700000299000)\<rparr>"

definition no_patients :: VitalsState where
  "no_patients = \<lparr>patientVitals = Map.empty, isSimulating = False, simulationInterval = None\<rparr>"

definition started :: "VitalsState \<times> env" where
  "started =
     (case initializeVitals ''p1'' TrendNormal two_patients steady_env of
        None \<Rightarrow> (two_patients, steady_env)
      | Some r \<Rightarrow> r)"

definition ticked :: "VitalsState \<times> env" where
  "ticked = updateAll [''p1'', ''p2'', ''p1''] (fst started) (snd started)"

definition rewound :: VitalsState where
  "rewound =
     (case initializeVitals ''p1'' TrendNormal no_patients rewind_env of
        None \<Rightarrow> no_patients
      | Some (s1, e1) \<Rightarrow> fst (updateVitals ''p1'' s1 e1))"

section \<open>Classification of one vital\<close>

text \<open>
  Claim C2. For every value and vital type, \<open>getVitalStatus\<close> returns stable exactly
  when the value lies in the normal band (endpoints included), warning exactly when it
  lies in the warning band (endpoints included) but not in the normal band, and critical
  otherwise. For heart rate, 60 and 100 are stable, 50 and 120 are warning, and the
  critical values are exactly those below 50 or above 120.
\<close>

theorem getVitalStatus_bands:
  "(getVitalStatus v vt = Stable) =
     (fst (normal (THRESHOLDS vt)) \<le> v \<and> v \<le> snd (normal (THRESHOLDS vt)))
   \<and> (getVitalStatus v vt = Warning) =
     ((fst (warning (THRESHOLDS vt)) \<le> v \<and> v \<le> snd (warning (THRESHOLDS vt)))
      \<and> \<not> (fst (normal (THRESHOLDS vt)) \<le> v \<and> v \<le> snd (normal (THRESHOLDS vt))))
   \<and> (getVitalStatus v vt = Critical) =
     (\<not> (fst (warning (THRESHOLDS vt)) \<le> v \<and> v \<le> snd (warning (THRESHOLDS vt)))
      \<and> \<not> (fst (normal (THRESHOLDS vt)) \<le> v \<and> v \<le> snd (normal (THRESHOLDS vt))))
   \<and> getVitalStatus 60 HeartRate = Stable
   \<and> getVitalStatus 100 HeartRate = Stable
   \<and> getVitalStatus 50 HeartRate = Warning
   \<and> getVitalStatus 120 HeartRate = Warning
   \<and> (getVitalStatus v HeartRate = Critical) = (v < 50 \<or> v > 120)"
  by (auto simp: getVitalStatus_def Let_def)

section \<open>The latest value of a series\<close>

text \<open>
  Claim C9. \<open>getLatestValue\<close> returns the value of the last sample of a non-empty
  series and 0 for the empty series; it is a total function, so it never fails.
\<close>

theorem getLatestValue_last_or_zero:
  "getLatestValue [] = 0
   \<and> getLatestValue (signs @ [s]) = value s
   \<and> getLatestValue signs = (if signs = [] then 0 else value (last signs))"
  by (simp add: getLatestValue_def last_conv_nth)

section \<open>Aggregation over a bundle\<close>

lemma getCurrentValue_eq:
  "getCurrentValue signs = (if signs = [] then None else Some (value (last signs)))"
  by (simp add: getCurrentValue_def last_conv_nth)

lemma vt_all:
  "(\<forall>vt. P vt) = (P HeartRate \<and> P Systolic \<and> P Diastolic \<and> P Spo2 \<and> P Temperature)"
  by (metis VitalType.exhaust)

lemma vt_ex:
  "(\<exists>vt. P vt) = (P HeartRate \<or> P Systolic \<or> P Diastolic \<or> P Spo2 \<or> P Temperature)"
  by (metis VitalType.exhaust)

lemma status_member:
  "x \<in> set (case getCurrentValue signs of None \<Rightarrow> [] | Some v \<Rightarrow> [getVitalStatus v vt])
     \<longleftrightarrow> signs \<noteq> [] \<and> getVitalStatus (value (last signs)) vt = x"
  by (auto simp: getCurrentValue_eq)

lemma hasAnyData_iff:
  "list_ex (\<lambda>v. v \<noteq> None)
     [getCurrentValue a, getCurrentValue b, getCurrentValue c, getCurrentValue d, getCurrentValue f]
   \<longleftrightarrow> a \<noteq> [] \<or> b \<noteq> [] \<or> c \<noteq> [] \<or> d \<noteq> [] \<or> f \<noteq> []"
  by (simp add: getCurrentValue_eq)

lemma calculatePatientStatus_worst:
  "calculatePatientStatus vitals =
     (if \<exists>vt. latestIs vitals Critical vt then Critical
      else if \<exists>vt. latestIs vitals Warning vt then Warning
      else Stable)"
  unfolding vt_ex latestIs_def
  apply (simp only: calculatePatientStatus_def Let_def hasAnyData_iff List.member_iff
           set_append Un_iff status_member)
  apply (cases "heartRate vitals = []"; cases "systolic vitals = []";
         cases "diastolic vitals = []"; cases "spo2 vitals = []";
         cases "temperature vitals = []"; simp)
  done

lemma worst_stable:
  fixes st :: "'a \<Rightarrow> PatientStatus"
  shows "(\<not> (\<exists>x. h x \<and> st x = Critical) \<and> \<not> (\<exists>x. h x \<and> st x = Warning))
           = (\<forall>x. h x \<longrightarrow> st x = Stable)"
proof
  assume a: "\<not> (\<exists>x. h x \<and> st x = Critical) \<and> \<not> (\<exists>x. h x \<and> st x = Warning)"
  show "\<forall>x. h x \<longrightarrow> st x = Stable"
  proof (intro allI impI)
    fix x assume "h x"
    with a have "st x \<noteq> Critical" "st x \<noteq> Warning" by auto
    then show "st x = Stable" by (cases "st x") auto
  qed
next
  assume "\<forall>x. h x \<longrightarrow> st x = Stable"
  then show "\<not> (\<exists>x. h x \<and> st x = Critical) \<and> \<not> (\<exists>x. h x \<and> st x = Warning)"
    by auto
qed

text \<open>
  Claim C3. \<open>calculatePatientStatus\<close> returns critical if and only if some vital with
  at least one sample classifies critical on its latest value; it returns stable if and
  only if every vital with data classifies stable on its latest value or no vital has a
  sample. A bundle without any sample is stable.
\<close>

theorem calculatePatientStatus_critical_stable:
  "(calculatePatientStatus vitals = Critical) =
     (\<exists>vt. vitals_get vitals vt \<noteq> [] \<and>
           getVitalStatus (value (last (vitals_get vitals vt))) vt = Critical)
   \<and> (calculatePatientStatus vitals = Stable) =
     ((\<forall>vt. vitals_get vitals vt \<noteq> [] \<longrightarrow>
            getVitalStatus (value (last (vitals_get vitals vt))) vt = Stable)
      \<or> (\<forall>vt. vitals_get vitals vt = []))
   \<and> ((\<forall>vt. vitals_get vitals vt = []) \<longrightarrow> calculatePatientStatus vitals = Stable)"
proof -
  have crit: "(calculatePatientStatus vitals = Critical) = (\<exists>vt. latestIs vitals Critical vt)"
    by (simp add: calculatePatientStatus_worst)
  have "(calculatePatientStatus vitals = Stable) =
          (\<not> (\<exists>vt. latestIs vitals Critical vt) \<and> \<not> (\<exists>vt. latestIs vitals Warning vt))"
    by (simp add: calculatePatientStatus_worst)
  also have "\<dots> = (\<forall>vt. vitals_get vitals vt \<noteq> [] \<longrightarrow>
            getVitalStatus (value (last (vitals_get vitals vt))) vt = Stable)"
    unfolding latestIs_def by (rule worst_stable)
  finally have stab: "(calculatePatientStatus vitals = Stable) =
      (\<forall>vt. vitals_get vitals vt \<noteq> [] \<longrightarrow>
            getVitalStatus (value (last (vitals_get vitals vt))) vt = Stable)" .
  show ?thesis
    using crit stab unfolding latestIs_def by blast
qed

theorem calculatePatientStatus_critical_stable_witness:
  "calculatePatientStatus (hr_only 72) = Stable
   \<and> calculatePatientStatus (hr_only 130) = Critical
   \<and> calculatePatientStatus
       \<lparr>heartRate = [], systolic = [], diastolic = [], spo2 = [], temperature = []\<rparr> = Stable"
  using calculatePatientStatus_critical_stable [of "hr_only 72"]
    calculatePatientStatus_critical_stable [of "hr_only 130"]
    calculatePatientStatus_critical_stable
      [of "\<lparr>heartRate = [], systolic = [], diastolic = [], spo2 = [], temperature = []\<rparr>"]
  by (simp add: vt_all vt_ex hr_only_def one_sample_def getVitalStatus_def)

section \<open>Updating one patient\<close>

text \<open>
  Claim C8. When the patient id has no bundle in the map, \<open>updateVitals\<close> returns the
  session state as it was (all three fields), draws no random number and reads no clock;
  the function is total, so no error is raised.
\<close>

theorem updateVitals_unknown_patient:
  "patientVitals state patientId = None \<Longrightarrow> updateVitals patientId state e = (state, e)"
  by (simp add: updateVitals_def)

theorem updateVitals_unknown_patient_witness:
  "patientVitals two_patients ''p3'' = None
   \<and> updateVitals ''p3'' two_patients steady_env = (two_patients, steady_env)"
proof -
  have h: "patientVitals two_patients ''p3'' = None"
    by (simp add: two_patients_def)
  show ?thesis
    using h updateVitals_unknown_patient [OF h, of steady_env] by simp
qed

text \<open>
  Claim C10. When the patient id has a bundle, \<open>updateVitals\<close> changes only that
  patient's entry: every other key of the map, \<open>isSimulating\<close> and
  \<open>simulationInterval\<close> are as before, and the patient keeps a bundle.
\<close>

theorem updateVitals_frame:
  "patientVitals state patientId = Some b \<Longrightarrow>
     (\<forall>q. q \<noteq> patientId \<longrightarrow>
        patientVitals (fst (updateVitals patientId state e)) q = patientVitals state q)
     \<and> isSimulating (fst (updateVitals patientId state e)) = isSimulating state
     \<and> simulationInterval (fst (updateVitals patientId state e)) = simulationInterval state
     \<and> patientVitals (fst (updateVitals patientId state e)) patientId \<noteq> None"
  by (auto simp: updateVitals_def Let_def split: prod.splits)

theorem updateVitals_frame_witness:
  "patientVitals two_patients ''p1'' = Some (hr_only 72)
   \<and> patientVitals (fst (updateVitals ''p1'' two_patients steady_env)) ''p2''
       = Some (hr_only 130)
   \<and> isSimulating (fst (updateVitals ''p1'' two_patients steady_env)) = True
   \<and> simulationInterval (fst (updateVitals ''p1'' two_patients steady_env)) = Some 7
   \<and> patientVitals (fst (updateVitals ''p1'' two_patients steady_env)) ''p1'' \<noteq> None"
proof -
  have h: "patientVitals two_patients ''p1'' = Some (hr_only 72)"
    by (simp add: two_patients_def)
  have other: "patientVitals two_patients ''p2'' = Some (hr_only 130)"
    by (simp add: two_patients_def)
  have flags: "isSimulating two_patients = True" "simulationInterval two_patients = Some 7"
    by (simp_all add: two_patients_def)
  show ?thesis
    using h other flags updateVitals_frame [OF h, of steady_env] by simp
qed

section \<open>The random source and the resampling loop\<close>

lemma drop_draws_0 [simp]: "drop_draws 0 e = e"
  by (simp add: drop_draws_def)

lemma drop_draws_drop [simp]: "drop_draws k (drop_draws j e) = drop_draws (j + k) e"
  by (simp add: drop_draws_def ac_simps)

lemma Math_random_eq: "Math_random e = (randoms e 0, drop_draws (Suc 0) e)"
  by (simp add: Math_random_def drop_draws_def)

lemma randoms_drop [simp]: "randoms (drop_draws k e) n = randoms e (n + k)"
  by (simp add: drop_draws_def)

lemma clock_drop [simp]: "clock (drop_draws k e) = clock e"
  by (simp add: drop_draws_def)

lemma Date_now_eq: "Date_now e = (clock e 0, e\<lparr>clock := (\<lambda>n. clock e (Suc n))\<rparr>)"
  by (simp add: Date_now_def)

lemma resample_nonzero: "u \<noteq> 0 \<Longrightarrow> resample u e = Some (u, e)"
  by (subst resample.simps) simp

lemma resample_returns:
  "randoms e n \<noteq> 0 \<Longrightarrow>
     \<exists>u' k. resample u e = Some (u', drop_draws k e) \<and> u' \<noteq> 0"
proof (induction n arbitrary: u e)
  case 0
  show ?case
  proof (cases "u = 0")
    case False
    then have "resample u e = Some (u, drop_draws 0 e)"
      by (subst resample.simps) simp
    with False show ?thesis by blast
  next
    case True
    have "resample (randoms e 0) (drop_draws (Suc 0) e) = Some (randoms e 0, drop_draws (Suc 0) e)"
      using 0 by (subst resample.simps) simp
    then have "resample u e = Some (randoms e 0, drop_draws (Suc 0) e)"
      using True by (subst resample.simps) (simp add: Math_random_eq)
    with 0 show ?thesis by blast
  qed
next
  case (Suc n)
  show ?case
  proof (cases "u = 0")
    case False
    then have "resample u e = Some (u, drop_draws 0 e)"
      by (subst resample.simps) simp
    with False show ?thesis by blast
  next
    case True
    have "randoms (drop_draws (Suc 0) e) n \<noteq> 0" using Suc.prems by simp
    from Suc.IH [OF this, of "randoms e 0"]
    obtain u' k where r: "resample (randoms e 0) (drop_draws (Suc 0) e) = Some (u', drop_draws k (drop_draws (Suc 0) e))"
      and nz: "u' \<noteq> 0" by blast
    have "resample u e = resample (randoms e 0) (drop_draws (Suc 0) e)"
      using True by (subst resample.simps) (simp add: Math_random_eq)
    with r nz show ?thesis by (auto)
  qed
qed

lemma resample_env_snd:
  assumes "resample u e = Some y"
  shows "\<exists>k. snd y = drop_draws k e"
proof (rule resample.raw_induct [where P = "\<lambda>u e y. \<exists>k. snd y = drop_draws k e", OF _ assms])
  fix loop a b c
  assume IH: "\<And>a b c. loop a b = Some c \<Longrightarrow> \<exists>k. snd c = drop_draws k b"
    and body: "(if a = 0 then loop (fst (Math_random b)) (snd (Math_random b))
                else Some (a, b)) = Some c"
  show "\<exists>k. snd c = drop_draws k b"
  proof (cases "a = 0")
    case True
    with body have "loop (randoms b 0) (drop_draws (Suc 0) b) = Some c"
      by (simp add: Math_random_eq)
    from IH [OF this] obtain k where "snd c = drop_draws k (drop_draws (Suc 0) b)" by blast
    then have "snd c = drop_draws (Suc k) b" by simp
    then show ?thesis by blast
  next
    case False
    with body have "snd c = drop_draws 0 b" by auto
    then show ?thesis by blast
  qed
qed

lemma resample_env:
  "resample u e = Some (u', e') \<Longrightarrow> \<exists>k. e' = drop_draws k e"
  using resample_env_snd [of u e "(u', e')"] by simp

lemma nonzero_draws_drop: "nonzero_draws e \<Longrightarrow> nonzero_draws (drop_draws k e)"
  unfolding nonzero_draws_def
proof
  fix j assume a: "\<forall>k. \<exists>n. randoms e (k + n) \<noteq> 0"
  then obtain n where "randoms e ((j + k) + n) \<noteq> 0" by blast
  then have "randoms (drop_draws k e) (j + n) \<noteq> 0" by (simp add: add.assoc add.commute add.left_commute)
  then show "\<exists>n. randoms (drop_draws k e) (j + n) \<noteq> 0" by blast
qed

lemma nonzero_draws_clock [simp]: "nonzero_draws (e\<lparr>clock := c\<rparr>) = nonzero_draws e"
  by (simp add: nonzero_draws_def)

lemma nonzero_draws_cong:
  assumes "randoms e' = (\<lambda>n. randoms e (n + k))" and "nonzero_draws e"
  shows "nonzero_draws e'"
proof -
  have "nonzero_draws (drop_draws k e)" by (rule nonzero_draws_drop [OF assms(2)])
  moreover have "randoms (drop_draws k e) = randoms e'"
    unfolding assms(1) by (simp add: drop_draws_def)
  ultimately show ?thesis by (simp add: nonzero_draws_def)
qed

lemma gaussianRandom_returns:
  assumes "nonzero_draws e"
  shows "\<exists>v k. gaussianRandom m sd e = Some (v, drop_draws k e)"
proof -
  from assms obtain n where "randoms e (Suc 0 + n) \<noteq> 0"
    unfolding nonzero_draws_def by blast
  then have "randoms (drop_draws (Suc 0) e) n \<noteq> 0" by (simp add: add.commute)
  from resample_returns [OF this, of "randoms e 0"]
  obtain u' k where r: "resample (randoms e 0) (drop_draws (Suc 0) e) = Some (u', drop_draws k (drop_draws (Suc 0) e))"
    by blast
  show ?thesis
    by (auto simp: gaussianRandom_def Math_random_eq r Let_def)
qed

lemma gaussianRandom_env:
  assumes "gaussianRandom m sd e = Some (v, e')"
  shows "\<exists>k. e' = drop_draws k e"
proof -
  from assms obtain u1 e2 where r: "resample (randoms e 0) (drop_draws (Suc 0) e) = Some (u1, e2)"
    and e': "e' = drop_draws (Suc 0) e2"
    by (auto simp: gaussianRandom_def Math_random_eq Let_def split: option.splits)
  from resample_env [OF r] obtain k where "e2 = drop_draws k (drop_draws (Suc 0) e)" by blast
  with e' have "e' = drop_draws (Suc (Suc k)) e" by simp
  then show ?thesis by blast
qed

lemma gaussianRandom_affine:
  "gaussianRandom m sd e = map_option (\<lambda>(z, e'). (z * sd + m, e')) (gaussianRandom 0 1 e)"
  by (simp add: gaussianRandom_def Let_def split: prod.splits option.splits)

section \<open>Bounds of generated values\<close>

lemma clamp_bounds: "lo \<le> hi \<Longrightarrow> lo \<le> clamp v lo hi \<and> clamp v lo hi \<le> hi"
  by (simp add: clamp_def)

lemma range_ordered: "minV (VITAL_RANGES vt) \<le> maxV (VITAL_RANGES vt)"
  by (cases vt) simp_all

lemma generateBaselineValue_returns:
  assumes "nonzero_draws e"
  shows "\<exists>v k. generateBaselineValue vt trend e = Some (v, drop_draws k e)"
proof (cases trend)
  case TrendNormal
  from gaussianRandom_returns [OF assms] obtain v k where
    "gaussianRandom (mean (VITAL_RANGES vt)) (stdDev (VITAL_RANGES vt)) e = Some (v, drop_draws k e)"
    by blast
  then show ?thesis using TrendNormal by (auto simp: generateBaselineValue_def Let_def)
next
  case TrendWarning
  define m where "m = (if randoms e 0 > 5 / 10 then mean (VITAL_RANGES vt) * (115 / 100)
                       else mean (VITAL_RANGES vt) * (9 / 10))"
  from gaussianRandom_returns [OF nonzero_draws_drop [OF assms]] obtain v k where
    "gaussianRandom m (stdDev (VITAL_RANGES vt) * (12 / 10)) (drop_draws (Suc 0) e)
       = Some (v, drop_draws k (drop_draws (Suc 0) e))"
    by blast
  then show ?thesis using TrendWarning
    by (auto simp: generateBaselineValue_def Let_def Math_random_eq m_def)
next
  case TrendCritical
  define m where "m = (if randoms e 0 > 5 / 10 then mean (VITAL_RANGES vt) * (13 / 10)
                       else mean (VITAL_RANGES vt) * (8 / 10))"
  from gaussianRandom_returns [OF nonzero_draws_drop [OF assms]] obtain v k where
    "gaussianRandom m (stdDev (VITAL_RANGES vt) * (15 / 10)) (drop_draws (Suc 0) e)
       = Some (v, drop_draws k (drop_draws (Suc 0) e))"
    by blast
  then show ?thesis using TrendCritical
    by (auto simp: generateBaselineValue_def Let_def Math_random_eq m_def)
qed

lemma generateBaselineValue_env:
  assumes "generateBaselineValue vt trend e = Some (v, e')"
  shows "\<exists>k. e' = drop_draws k e"
proof (cases trend)
  case TrendNormal
  with assms obtain g where "gaussianRandom (mean (VITAL_RANGES vt)) (stdDev (VITAL_RANGES vt)) e = Some (g, e')"
    by (auto simp: generateBaselineValue_def Let_def split: option.splits)
  then show ?thesis by (rule gaussianRandom_env)
next
  case TrendWarning
  with assms obtain g m sd where "gaussianRandom m sd (drop_draws (Suc 0) e) = Some (g, e')"
    by (auto simp: generateBaselineValue_def Let_def Math_random_eq split: option.splits if_splits)
  from gaussianRandom_env [OF this] obtain k where "e' = drop_draws k (drop_draws (Suc 0) e)" by blast
  then have "e' = drop_draws (Suc k) e" by simp
  then show ?thesis by blast
next
  case TrendCritical
  with assms obtain g m sd where "gaussianRandom m sd (drop_draws (Suc 0) e) = Some (g, e')"
    by (auto simp: generateBaselineValue_def Let_def Math_random_eq split: option.splits if_splits)
  from gaussianRandom_env [OF this] obtain k where "e' = drop_draws k (drop_draws (Suc 0) e)" by blast
  then have "e' = drop_draws (Suc k) e" by simp
  then show ?thesis by blast
qed

lemma generateBaselineValue_bounds:
  "generateBaselineValue vt trend e = Some (v, e') \<Longrightarrow>
     minV (VITAL_RANGES vt) \<le> v \<and> v \<le> maxV (VITAL_RANGES vt)"
  using clamp_bounds [OF range_ordered [of vt]]
  by (auto simp: generateBaselineValue_def Let_def split: option.splits)

lemma generateVitalUpdate_bounds:
  "minV (VITAL_RANGES vt) \<le> fst (generateVitalUpdate x vt trend e)
   \<and> fst (generateVitalUpdate x vt trend e) \<le> maxV (VITAL_RANGES vt)"
  using clamp_bounds [OF range_ordered [of vt]]
  by (simp add: generateVitalUpdate_def Let_def split: prod.splits)

lemma generateVitalUpdate_env:
  "\<exists>k. snd (generateVitalUpdate x vt trend e) = drop_draws k e"
  by (cases trend) (auto simp: generateVitalUpdate_def Let_def Math_random_eq split: prod.splits)

lemma generateVitalUpdate_clock: "clock (snd (generateVitalUpdate x vt trend e)) = clock e"
  using generateVitalUpdate_env [of x vt trend e] by auto

lemma nonzero_steady: "nonzero_draws steady_env"
  by (simp add: nonzero_draws_def steady_env_def)

text \<open>
  Claim C1. For every vital type, every regime and every input value (a real, so
  finite), the value returned by \<open>generateVitalUpdate\<close> lies between the \<open>min\<close>
  and \<open>max\<close> of the vital's entry in \<open>VITAL_RANGES\<close>, and so does every value
  returned by \<open>generateBaselineValue\<close>; the baseline does return a value whenever the
  random source is not stuck at 0.
\<close>

theorem generated_values_within_bounds:
  "minV (VITAL_RANGES vt) \<le> fst (generateVitalUpdate x vt trend e)
   \<and> fst (generateVitalUpdate x vt trend e) \<le> maxV (VITAL_RANGES vt)
   \<and> (case generateBaselineValue vt trend e of
         None \<Rightarrow> True
       | Some (v, e') \<Rightarrow> minV (VITAL_RANGES vt) \<le> v \<and> v \<le> maxV (VITAL_RANGES vt))
   \<and> (nonzero_draws e \<longrightarrow>
        (\<exists>v e'. generateBaselineValue vt trend e = Some (v, e')
                 \<and> minV (VITAL_RANGES vt) \<le> v \<and> v \<le> maxV (VITAL_RANGES vt)))"
proof -
  have a: "minV (VITAL_RANGES vt) \<le> fst (generateVitalUpdate x vt trend e)
   \<and> fst (generateVitalUpdate x vt trend e) \<le> maxV (VITAL_RANGES vt)"
    by (rule generateVitalUpdate_bounds)
  have b: "case generateBaselineValue vt trend e of
         None \<Rightarrow> True
       | Some (v, e') \<Rightarrow> minV (VITAL_RANGES vt) \<le> v \<and> v \<le> maxV (VITAL_RANGES vt)"
    using generateBaselineValue_bounds [of vt trend e]
    by (auto split: option.splits)
  have c: "nonzero_draws e \<longrightarrow>
        (\<exists>v e'. generateBaselineValue vt trend e = Some (v, e')
                 \<and> minV (VITAL_RANGES vt) \<le> v \<and> v \<le> maxV (VITAL_RANGES vt))"
  proof
    assume "nonzero_draws e"
    from generateBaselineValue_returns [OF this, of vt trend]
    obtain v k where r: "generateBaselineValue vt trend e = Some (v, drop_draws k e)" by blast
    with generateBaselineValue_bounds [OF r] show "\<exists>v e'. generateBaselineValue vt trend e = Some (v, e')
                 \<and> minV (VITAL_RANGES vt) \<le> v \<and> v \<le> maxV (VITAL_RANGES vt)"
      by blast
  qed
  from a b c show ?thesis by blast
qed

theorem generated_values_within_bounds_witness:
  "nonzero_draws steady_env
   \<and> (\<exists>v e'. generateBaselineValue Spo2 TrendCritical steady_env = Some (v, e')
              \<and> 85 \<le> v \<and> v \<le> 100)
   \<and> 85 \<le> fst (generateVitalUpdate 1000 Spo2 TrendCritical steady_env)
   \<and> fst (generateVitalUpdate 1000 Spo2 TrendCritical steady_env) \<le> 100"
  using nonzero_steady generated_values_within_bounds [of Spo2 1000 TrendCritical steady_env]
  by simp

section \<open>The regimes of the baseline\<close>

text \<open>
  Claim C5, as the code has it. In the warning regime the baseline samples a Gaussian
  whose mean is the nominal mean times 1.15 when the direction draw exceeds 0.5 and times
  0.9 otherwise, with the standard deviation times 1.2; in the critical regime the
  factors are 1.3 and 0.8, with the standard deviation times 1.5. The sample is clamped
  to the vital's bounds. A sample with mean \<open>m\<close> and deviation \<open>sd\<close> is the
  standard sample scaled by \<open>sd\<close> and shifted by \<open>m\<close>.
\<close>

theorem generateBaselineValue_regimes:
  "generateBaselineValue vt TrendNormal e =
     map_option (\<lambda>(v, e'). (clamp v (minV (VITAL_RANGES vt)) (maxV (VITAL_RANGES vt)), e'))
       (gaussianRandom (mean (VITAL_RANGES vt)) (stdDev (VITAL_RANGES vt)) e)
   \<and> generateBaselineValue vt TrendWarning e
       = shifted_baseline (115 / 100) (90 / 100) (12 / 10) vt e
   \<and> generateBaselineValue vt TrendCritical e
       = shifted_baseline (130 / 100) (80 / 100) (15 / 10) vt e
   \<and> gaussianRandom m sd e = map_option (\<lambda>(z, e'). (z * sd + m, e')) (gaussianRandom 0 1 e)"
proof -
  have n: "generateBaselineValue vt TrendNormal e =
     map_option (\<lambda>(v, e'). (clamp v (minV (VITAL_RANGES vt)) (maxV (VITAL_RANGES vt)), e'))
       (gaussianRandom (mean (VITAL_RANGES vt)) (stdDev (VITAL_RANGES vt)) e)"
    by (simp add: generateBaselineValue_def Let_def split: option.splits)
  have w: "generateBaselineValue vt TrendWarning e
       = shifted_baseline (115 / 100) (90 / 100) (12 / 10) vt e"
    by (simp add: generateBaselineValue_def shifted_baseline_def Let_def
          split: option.splits prod.splits)
  have c: "generateBaselineValue vt TrendCritical e
       = shifted_baseline (130 / 100) (80 / 100) (15 / 10) vt e"
    by (simp add: generateBaselineValue_def shifted_baseline_def Let_def
          split: option.splits prod.splits)
  from n w c gaussianRandom_affine [of m sd e] show ?thesis by blast
qed

lemma gaussian_steady:
  "gaussianRandom m sd (drop_draws k steady_env) = Some (m, drop_draws (Suc (Suc k)) steady_env)"
  by (simp add: gaussianRandom_def Math_random_eq resample_nonzero steady_env_def
        drop_draws_def Let_def)

lemma baseline_warning_steady:
  "generateBaselineValue HeartRate TrendWarning steady_env
     = Some (675 / 10, drop_draws (Suc (Suc (Suc 0))) steady_env)"
proof -
  have r: "randoms steady_env 0 = 1 / 4" by (simp add: steady_env_def)
  have g: "gaussianRandom m sd (drop_draws (Suc 0) steady_env) = Some (m, drop_draws (Suc (Suc (Suc 0))) steady_env)" for m sd
    by (rule gaussian_steady)
  show ?thesis
    by (simp add: generateBaselineValue_def Math_random_eq r g Let_def clamp_def)
qed

lemma baseline_critical_steady:
  "generateBaselineValue HeartRate TrendCritical steady_env
     = Some (60, drop_draws (Suc (Suc (Suc 0))) steady_env)"
proof -
  have r: "randoms steady_env 0 = 1 / 4" by (simp add: steady_env_def)
  have g: "gaussianRandom m sd (drop_draws (Suc 0) steady_env) = Some (m, drop_draws (Suc (Suc (Suc 0))) steady_env)" for m sd
    by (rule gaussian_steady)
  show ?thesis
    by (simp add: generateBaselineValue_def Math_random_eq r g Let_def clamp_def)
qed

lemma shifted_steady:
  "shifted_baseline up down widen HeartRate steady_env
     = Some (clamp (75 * down) 45 150, drop_draws (Suc (Suc (Suc 0))) steady_env)"
proof -
  have r: "randoms steady_env 0 = 1 / 4" by (simp add: steady_env_def)
  have g: "gaussianRandom m sd (drop_draws (Suc 0) steady_env) = Some (m, drop_draws (Suc (Suc (Suc 0))) steady_env)" for m sd
    by (rule gaussian_steady)
  show ?thesis
    by (simp add: shifted_baseline_def Math_random_eq r g)
qed

text \<open>
  The symmetric shifts of the claim as stated (15 percent both ways, 30 percent both
  ways) are not what the code computes: with the direction draw 0.25 and a sample that
  falls on the mean, the heart-rate baseline is 67.5 in the warning regime and 60 in the
  critical regime, where a shift by 15 percent gives 63.75 or 86.25 and a shift by 30
  percent gives 52.5 or 97.5.
\<close>

theorem generateBaselineValue_shift_counterexample:
  "generateBaselineValue HeartRate TrendWarning steady_env
     \<noteq> shifted_baseline (115 / 100) (85 / 100) (12 / 10) HeartRate steady_env
   \<and> generateBaselineValue HeartRate TrendWarning steady_env
     \<noteq> shifted_baseline (85 / 100) (115 / 100) (12 / 10) HeartRate steady_env
   \<and> generateBaselineValue HeartRate TrendCritical steady_env
     \<noteq> shifted_baseline (130 / 100) (70 / 100) (15 / 10) HeartRate steady_env
   \<and> generateBaselineValue HeartRate TrendCritical steady_env
     \<noteq> shifted_baseline (70 / 100) (130 / 100) (15 / 10) HeartRate steady_env
   \<and> map_option fst (generateBaselineValue HeartRate TrendWarning steady_env) = Some (675 / 10)
   \<and> map_option fst (generateBaselineValue HeartRate TrendCritical steady_env) = Some 60"
  by (simp add: baseline_warning_steady baseline_critical_steady shifted_steady clamp_def)

section \<open>The regimes of the update\<close>

text \<open>
  Claim C6, as the code has it. With \<open>r0\<close>, \<open>r1\<close>, \<open>r2\<close> the next
  three draws, the noise is \<open>current * 0.015 * (r0 * 2 - 1)\<close> and the returned value
  is \<open>current + noise + drift\<close> clamped to the vital's bounds, where the drift is
  \<open>(target - current) * 0.08 * mult\<close>: in the normal regime towards the mean with
  multiplier 1.5; in the warning regime, when \<open>r1 < 0.05\<close>, towards the mean times
  1.12 (\<open>r2 > 0.5\<close>) or times 0.92 with multiplier 1, otherwise towards the mean with
  multiplier 0.8; in the critical regime, when \<open>r1 < 0.08\<close>, towards 85 percent of
  \<open>max\<close> (\<open>r2 > 0.5\<close>) or 115 percent of \<open>min\<close> with multiplier 1.5,
  otherwise towards the mean with multiplier 0.5.
\<close>

theorem generateVitalUpdate_regimes:
  "fst (generateVitalUpdate x vt TrendNormal e) =
     advance_toward x vt (x * (15 / 1000) * (randoms e 0 * 2 - 1)) (mean (VITAL_RANGES vt)) (15 / 10)
   \<and> fst (generateVitalUpdate x vt TrendWarning e) =
     (if randoms e 1 < 5 / 100
      then advance_toward x vt (x * (15 / 1000) * (randoms e 0 * 2 - 1))
             (if randoms e 2 > 5 / 10 then mean (VITAL_RANGES vt) * (112 / 100)
              else mean (VITAL_RANGES vt) * (92 / 100)) 1
      else advance_toward x vt (x * (15 / 1000) * (randoms e 0 * 2 - 1))
             (mean (VITAL_RANGES vt)) (8 / 10))
   \<and> fst (generateVitalUpdate x vt TrendCritical e) =
     (if randoms e 1 < 8 / 100
      then advance_toward x vt (x * (15 / 1000) * (randoms e 0 * 2 - 1))
             (if randoms e 2 > 5 / 10 then maxV (VITAL_RANGES vt) * (85 / 100)
              else minV (VITAL_RANGES vt) * (115 / 100)) (15 / 10)
      else advance_toward x vt (x * (15 / 1000) * (randoms e 0 * 2 - 1))
             (mean (VITAL_RANGES vt)) (5 / 10))"
  by (simp add: generateVitalUpdate_def advance_toward_def driftStrength_def Let_def
        Math_random_def numeral_2_eq_2)

text \<open>
  The symmetric warning target of the claim as stated (the mean shifted by 12 percent
  either way) is not what the code computes: from 75 with no noise, a worsening step in
  the downward direction gives 74.52 (target 69), where a target of 66 gives 74.28 and
  a target of 84 gives 75.72.
\<close>

theorem generateVitalUpdate_target_counterexample:
  "fst (generateVitalUpdate 75 HeartRate TrendWarning worsen_env) = 7452 / 100
   \<and> fst (generateVitalUpdate 75 HeartRate TrendWarning worsen_env)
       \<noteq> advance_toward 75 HeartRate (75 * (15 / 1000) * (1 / 2 * 2 - 1)) (75 * (1 + 12 / 100)) 1
   \<and> fst (generateVitalUpdate 75 HeartRate TrendWarning worsen_env)
       \<noteq> advance_toward 75 HeartRate (75 * (15 / 1000) * (1 / 2 * 2 - 1)) (75 * (1 - 12 / 100)) 1"
  by (simp add: generateVitalUpdate_def advance_toward_def driftStrength_def Let_def
        Math_random_def worsen_env_def clamp_def)

section \<open>The generated history\<close>

lemma history_loop_eq:
  "i \<le> count \<Longrightarrow>
     history_loop vt count step trend now i v hist e =
       (hist @ fst (history_from vt trend (now - (int count - int i - 1) * step) step (count - i) v e),
        snd (history_from vt trend (now - (int count - int i - 1) * step) step (count - i) v e))"
proof (induction "count - i" arbitrary: i v hist e)
  case 0
  then have "i = count" by simp
  then show ?case by (subst history_loop.simps) simp
next
  case (Suc n)
  then have lt: "i < count" by simp
  show ?case
  proof (cases "i < count - 1")
    case True
    then have "count - i = Suc (Suc (count - i - 2))" by arith
    then obtain m where m: "count - i = Suc (Suc m)" ..
    have n: "n = count - (i + 1)" using Suc.hyps(2) by simp
    have le: "i + 1 \<le> count" using lt by simp
    have m': "count - (i + 1) = Suc m" using m by simp
    have t: "now - (int count - int (i + 1) - 1) * step
               = now - (int count - int i - 1) * step + step"
      by (simp add: algebra_simps)
    show ?thesis
      apply (subst history_loop.simps)
      apply (simp only: lt True if_True Suc.hyps(1) [OF n le] m m' t)
      apply (simp add: split_beta)
      done
  next
    case False
    with lt have c: "count - i = Suc 0" by simp
    have i1: "i + 1 = count" using c lt by simp
    have last: "history_loop vt count step trend now count v hist' e = (hist', e)" for hist'
      by (subst history_loop.simps) simp
    show ?thesis
      apply (subst history_loop.simps)
      apply (simp only: lt False if_True if_False c i1 last)
      apply simp
      done
  qed
qed

lemma history_from_length:
  "length (fst (history_from vt trend t step n v e)) = n"
  by (induction vt trend t step n v e rule: history_from.induct)
     (auto split: prod.splits)

lemma history_from_timestamps:
  "map timestamp (fst (history_from vt trend t step n v e))
     = map (\<lambda>i. t + int i * step) [0..<n]"
proof (induction vt trend t step n v e rule: history_from.induct)
  case (3 vt trend t step n v e)
  obtain v' e' where g: "generateVitalUpdate v vt trend e = (v', e')" by force
  obtain h e'' where r: "history_from vt trend (t + step) step (Suc n) v' e' = (h, e'')" by force
  have "map timestamp h = map (\<lambda>i. t + step + int i * step) [0..<Suc n]"
    using 3 [OF g [symmetric]] r by simp
  also have "\<dots> = map (\<lambda>i. t + int i * step) (map Suc [0..<Suc n])"
    by (simp add: algebra_simps)
  finally have "map timestamp h = map (\<lambda>i. t + int i * step) (map Suc [0..<Suc n])" .
  then show ?case
    by (simp add: g r upt_conv_Cons [of 0 "Suc (Suc n)"] map_Suc_upt del: upt_Suc)
qed simp_all

lemma history_from_values_bounded:
  "lo \<le> v \<and> v \<le> hi \<Longrightarrow> lo = minV (VITAL_RANGES vt) \<Longrightarrow> hi = maxV (VITAL_RANGES vt) \<Longrightarrow>
     \<forall>s \<in> set (fst (history_from vt trend t step n v e)). lo \<le> value s \<and> value s \<le> hi"
proof (induction vt trend t step n v e rule: history_from.induct)
  case (3 vt trend t step n v e)
  obtain v' e' where g: "generateVitalUpdate v vt trend e = (v', e')" by force
  obtain h e'' where r: "history_from vt trend (t + step) step (Suc n) v' e' = (h, e'')" by force
  have "lo \<le> v' \<and> v' \<le> hi"
    using generateVitalUpdate_bounds [of vt v trend e] g 3(3,4) by simp
  from 3(1) [OF g [symmetric] this 3(3,4)] r 3(2)
  show ?case by (simp add: g r)
qed simp_all

lemma history_from_first:
  "0 < n \<Longrightarrow> value (fst (history_from vt trend t step n v e) ! 0) = v"
  by (induction vt trend t step n v e rule: history_from.induct)
     (auto split: prod.splits)

lemma history_from_chain:
  "Suc i < n \<Longrightarrow>
     \<exists>ei. value (fst (history_from vt trend t step n v e) ! Suc i)
            = fst (generateVitalUpdate (value (fst (history_from vt trend t step n v e) ! i)) vt trend ei)"
proof (induction vt trend t step n v e arbitrary: i rule: history_from.induct)
  case (3 vt trend t step n v e)
  obtain v' e' where g: "generateVitalUpdate v vt trend e = (v', e')" by force
  obtain h e'' where r: "history_from vt trend (t + step) step (Suc n) v' e' = (h, e'')" by force
  show ?case
  proof (cases i)
    case 0
    have "value (h ! 0) = v'"
      using history_from_first [of "Suc n" vt trend "t + step" step v' e'] r by simp
    then have "value (h ! 0) = fst (generateVitalUpdate v vt trend e)" using g by simp
    then have "\<exists>ei. value (h ! 0) = fst (generateVitalUpdate v vt trend ei)" by (rule exI)
    then show ?thesis using 0 by (simp add: g r)
  next
    case (Suc j)
    then have "Suc j < Suc n" using 3(2) by simp
    from 3(1) [OF g [symmetric] this] r
    show ?thesis using Suc by (simp add: g r)
  qed
qed simp_all

lemma history_from_env:
  "\<exists>k. snd (history_from vt trend t step n v e) = drop_draws k e"
proof (induction vt trend t step n v e rule: history_from.induct)
  case (1 vt trend t step v e)
  have "e = drop_draws 0 e" by simp
  then show ?case by (metis history_from.simps(1) snd_conv)
next
  case (2 vt trend t step v e)
  have "e = drop_draws 0 e" by simp
  then show ?case by (metis history_from.simps(2) snd_conv)
next
  case (3 vt trend t step n v e)
  obtain v' e' where g: "generateVitalUpdate v vt trend e = (v', e')" by force
  obtain h e'' where r: "history_from vt trend (t + step) step (Suc n) v' e' = (h, e'')" by force
  from generateVitalUpdate_env [of v vt trend e] g obtain k where k: "e' = drop_draws k e" by auto
  from 3 [OF g [symmetric]] r obtain j where "e'' = drop_draws j e'" by auto
  with k have "e'' = drop_draws (k + j) e" by simp
  then show ?case by (auto simp: g r)
qed

lemma generateVitalHistory_Some:
  assumes "generateVitalHistory vt count step trend e = Some (h, e')"
  shows "\<exists>v e1. generateBaselineValue vt trend (snd (Date_now e)) = Some (v, e1)
           \<and> (h, e') = history_from vt trend (clock e 0 - (int count - 1) * step) step count v e1
           \<and> clock e' = (\<lambda>n. clock e (Suc n))
           \<and> (\<exists>k. randoms e' = (\<lambda>n. randoms e (n + k)))"
proof -
  from assms obtain v e1 where
    b: "generateBaselineValue vt trend (snd (Date_now e)) = Some (v, e1)"
    and l: "history_loop vt count step trend (clock e 0) 0 v [] e1 = (h, e')"
    by (auto simp: generateVitalHistory_def Date_now_eq split: option.splits)
  have hf: "(h, e') = history_from vt trend (clock e 0 - (int count - 1) * step) step count v e1"
    using l history_loop_eq [of 0 count vt step trend "clock e 0" v "[]" e1] by simp
  from generateBaselineValue_env [OF b] obtain k where k: "e1 = drop_draws k (snd (Date_now e))"
    by blast
  from history_from_env [of vt trend "clock e 0 - (int count - 1) * step" step count v e1] hf
  obtain j where j: "e' = drop_draws j e1" by (metis snd_conv)
  from k j have "e' = drop_draws (k + j) (snd (Date_now e))" by simp
  then have "clock e' = (\<lambda>n. clock e (Suc n))" "randoms e' = (\<lambda>n. randoms e (n + (k + j)))"
    by (simp_all add: Date_now_eq drop_draws_def)
  with b hf show ?thesis by blast
qed

lemma generateVitalHistory_returns:
  assumes "nonzero_draws e"
  shows "\<exists>h e'. generateVitalHistory vt count step trend e = Some (h, e') \<and> nonzero_draws e'"
proof -
  have "nonzero_draws (snd (Date_now e))" using assms by (simp add: Date_now_eq)
  from generateBaselineValue_returns [OF this, of vt trend]
  obtain v k where b: "generateBaselineValue vt trend (snd (Date_now e))
      = Some (v, drop_draws k (snd (Date_now e)))" by blast
  obtain h e' where "history_loop vt count step trend (clock e 0) 0 v []
      (drop_draws k (snd (Date_now e))) = (h, e')" by force
  with b have r: "generateVitalHistory vt count step trend e = Some (h, e')"
    by (simp add: generateVitalHistory_def Date_now_eq)
  from generateVitalHistory_Some [OF r] obtain j where "randoms e' = (\<lambda>n. randoms e (n + j))"
    by blast
  from nonzero_draws_cong [OF this assms] r show ?thesis by blast
qed

lemma upt_10: "[0..<10] = [0, 1, 2, 3, 4, 5, 6, 7, 8, 9]"
  by (simp add: upt_rec)

lemma generateVitalHistory_shape:
  assumes "generateVitalHistory vt count step trend e = Some (h, e')"
  shows "length h = count"
    and "map timestamp h = map (\<lambda>i. clock e 0 - (int count - 1 - int i) * step) [0..<count]"
    and "clock e' = (\<lambda>n. clock e (Suc n))"
proof -
  from generateVitalHistory_Some [OF assms] obtain v e1 where
    hf: "(h, e') = history_from vt trend (clock e 0 - (int count - 1) * step) step count v e1"
    and c: "clock e' = (\<lambda>n. clock e (Suc n))" by blast
  have h: "h = fst (history_from vt trend (clock e 0 - (int count - 1) * step) step count v e1)"
    using hf by (metis fst_conv)
  show "length h = count" unfolding h by (rule history_from_length)
  show "map timestamp h = map (\<lambda>i. clock e 0 - (int count - 1 - int i) * step) [0..<count]"
    unfolding h history_from_timestamps by (simp add: algebra_simps)
  show "clock e' = (\<lambda>n. clock e (Suc n))" by (rule c)
qed

text \<open>
  Claim C7. On a random source that is not stuck at 0, \<open>generateVitalHistory\<close>
  returns exactly \<open>count\<close> samples; sample \<open>i\<close> carries the timestamp
  \<open>now - (count - 1 - i) * intervalMs\<close>, so consecutive samples are exactly
  \<open>intervalMs\<close> apart and the last one carries the clock reading of the call; the
  first value is the baseline value, every later value is \<open>generateVitalUpdate\<close> of
  its predecessor, and every value lies within the vital's bounds. For
  \<open>spo2\<close>, 10 samples and 30000 ms these are 10 samples within 85 and 100.
\<close>

theorem generateVitalHistory_samples:
  assumes "nonzero_draws e"
  shows "\<exists>h e' v e1.
     generateVitalHistory vt count intervalMs trend e = Some (h, e')
     \<and> generateBaselineValue vt trend (snd (Date_now e)) = Some (v, e1)
     \<and> (h, e') = history_from vt trend (clock e 0 - (int count - 1) * intervalMs) intervalMs count v e1
     \<and> length h = count
     \<and> map timestamp h = map (\<lambda>i. clock e 0 - (int count - 1 - int i) * intervalMs) [0..<count]
     \<and> (\<forall>i. Suc i < count \<longrightarrow> timestamp (h ! Suc i) - timestamp (h ! i) = intervalMs)
     \<and> (0 < count \<longrightarrow> timestamp (last h) = clock e 0 \<and> value (h ! 0) = v)
     \<and> (\<forall>i. Suc i < count \<longrightarrow>
           (\<exists>ei. value (h ! Suc i) = fst (generateVitalUpdate (value (h ! i)) vt trend ei)))
     \<and> (\<forall>s\<in>set h. minV (VITAL_RANGES vt) \<le> value s \<and> value s \<le> maxV (VITAL_RANGES vt))"
proof -
  from generateVitalHistory_returns [OF assms, of vt count intervalMs trend]
  obtain h e' where r: "generateVitalHistory vt count intervalMs trend e = Some (h, e')" by blast
  from generateVitalHistory_Some [OF r] obtain v e1 where
    b: "generateBaselineValue vt trend (snd (Date_now e)) = Some (v, e1)"
    and hf: "(h, e') = history_from vt trend (clock e 0 - (int count - 1) * intervalMs) intervalMs count v e1"
    by blast
  let ?t = "clock e 0 - (int count - 1) * intervalMs"
  have h: "h = fst (history_from vt trend ?t intervalMs count v e1)"
    using hf by (metis fst_conv)
  have len: "length h = count" unfolding h by (rule history_from_length)
  have ts: "map timestamp h = map (\<lambda>i. clock e 0 - (int count - 1 - int i) * intervalMs) [0..<count]"
    unfolding h history_from_timestamps by (simp add: algebra_simps)
  have nth: "timestamp (h ! i) = clock e 0 - (int count - 1 - int i) * intervalMs" if "i < count" for i
  proof -
    have "timestamp (h ! i) = map timestamp h ! i" using that len by simp
    also have "\<dots> = clock e 0 - (int count - 1 - int i) * intervalMs"
      unfolding ts using that by simp
    finally show ?thesis .
  qed
  have sp: "\<forall>i. Suc i < count \<longrightarrow> timestamp (h ! Suc i) - timestamp (h ! i) = intervalMs"
  proof (intro allI impI)
    fix i assume a: "Suc i < count"
    then have "i < count" by simp
    from nth [OF a] nth [OF this]
    show "timestamp (h ! Suc i) - timestamp (h ! i) = intervalMs"
      by (simp add: algebra_simps)
  qed
  have la: "0 < count \<longrightarrow> timestamp (last h) = clock e 0 \<and> value (h ! 0) = v"
  proof
    assume c: "0 < count"
    then have ne: "h \<noteq> []" using len by auto
    have "timestamp (last h) = timestamp (h ! (count - 1))"
      using ne len by (simp add: last_conv_nth)
    also have "\<dots> = clock e 0" using nth [of "count - 1"] c by (simp add: of_nat_diff)
    finally have "timestamp (last h) = clock e 0" .
    moreover have "value (h ! 0) = v" unfolding h using c by (rule history_from_first)
    ultimately show "timestamp (last h) = clock e 0 \<and> value (h ! 0) = v" ..
  qed
  have ch: "\<forall>i. Suc i < count \<longrightarrow>
           (\<exists>ei. value (h ! Suc i) = fst (generateVitalUpdate (value (h ! i)) vt trend ei))"
    unfolding h using history_from_chain by blast
  have bd: "\<forall>s\<in>set h. minV (VITAL_RANGES vt) \<le> value s \<and> value s \<le> maxV (VITAL_RANGES vt)"
    unfolding h
    using history_from_values_bounded [OF generateBaselineValue_bounds [OF b] refl refl] .
  from r b hf len ts sp la ch bd show ?thesis by blast
qed

theorem generateVitalHistory_samples_witness:
  "nonzero_draws steady_env
   \<and> (\<exists>h e'. generateVitalHistory Spo2 10 30000 TrendNormal steady_env = Some (h, e')
         \<and> length h = 10
         \<and> map timestamp h
             = [30000, 60000, 90000, 120000, 150000, 180000, 210000, 240000, 270000, 300000]
         \<and> timestamp (last h) = 300000
         \<and> list_all (\<lambda>s. 85 \<le> value s \<and> value s \<le> 100) h)"
proof -
  from generateVitalHistory_samples [OF nonzero_steady, of Spo2 10 30000 TrendNormal]
  obtain h e' v where
    r: "generateVitalHistory Spo2 10 30000 TrendNormal steady_env = Some (h, e')"
    and l: "length h = 10"
    and t: "map timestamp h = map (\<lambda>i. clock steady_env 0 - (int 10 - 1 - int i) * 30000) [0..<10]"
    and e: "(0::nat) < 10 \<longrightarrow> timestamp (last h) = clock steady_env 0 \<and> value (h ! 0) = v" 
    and b: "\<forall>s\<in>set h. minV (VITAL_RANGES Spo2) \<le> value s \<and> value s \<le> maxV (VITAL_RANGES Spo2)"
    by (elim exE conjE) (rule that, assumption+)
  have "map timestamp h
             = [30000, 60000, 90000, 120000, 150000, 180000, 210000, 240000, 270000, 300000]"
    using t by (simp add: upt_10 steady_env_def)
  moreover have "timestamp (last h) = 300000" using e by (simp add: steady_env_def)
  moreover have "list_all (\<lambda>s. 85 \<le> value s \<and> value s \<le> 100) h"
    using b by (simp add: list_all_iff)
  ultimately show ?thesis using nonzero_steady r l by auto
qed

section \<open>The sliding window of the store\<close>

lemma updateOne_eq:
  "\<exists>v e'. updateOne cv tb (uv, e) vt =
      (vitals_set uv vt (slide (vitals_get cv vt) \<lparr>timestamp = clock e 0, value = v\<rparr>), e')
     \<and> clock e' = (\<lambda>n. clock e (Suc n))"
proof -
  let ?cs = "vitals_get cv vt"
  let ?lv = "if length ?cs = 0 then 0 else value (?cs ! (length ?cs - 1))"
  obtain nv e1 where g: "generateVitalUpdate ?lv vt tb e = (nv, e1)" by force
  have c1: "clock e1 = clock e" using generateVitalUpdate_clock [of ?lv vt tb e] g by simp
  have tr: "(if length (?cs @ [s]) > MAX_HISTORY_POINTS then tl (?cs @ [s]) else ?cs @ [s])
              = slide ?cs s" for s
    by (cases ?cs) (auto simp: slide_def MAX_HISTORY_POINTS_def)
  have "updateOne cv tb (uv, e) vt =
      (vitals_set uv vt (slide ?cs \<lparr>timestamp = clock e 0, value = nv\<rparr>),
       e1\<lparr>clock := (\<lambda>n. clock e1 (Suc n))\<rparr>)"
    unfolding updateOne_def Let_def prod.case g Date_now_eq tr c1 ..
  moreover have "clock (e1\<lparr>clock := (\<lambda>n. clock e1 (Suc n))\<rparr>) = (\<lambda>n. clock e (Suc n))"
    by (simp add: c1)
  ultimately show ?thesis by blast
qed

lemma updateVitals_series:
  assumes "patientVitals s p = Some cv"
  shows "\<exists>b' e' vals. updateVitals p s e = (s\<lparr>patientVitals := (patientVitals s)(p \<mapsto> b')\<rparr>, e')
           \<and> (\<forall>vt. vitals_get b' vt =
                  slide (vitals_get cv vt) \<lparr>timestamp = clock e (vitalIndex vt), value = vals vt\<rparr>)
           \<and> clock e' = (\<lambda>n. clock e (n + 5))"
proof -
  define tb where "tb = (case calculatePatientStatus cv of
                    Stable \<Rightarrow> TrendNormal
                  | Warning \<Rightarrow> TrendWarning
                  | Critical \<Rightarrow> TrendCritical)"
  from updateOne_eq [of cv tb cv e HeartRate] obtain v0 e0 where
    s0: "updateOne cv tb (cv, e) HeartRate =
           (vitals_set cv HeartRate (slide (vitals_get cv HeartRate) \<lparr>timestamp = clock e 0, value = v0\<rparr>), e0)"
    and c0: "clock e0 = (\<lambda>n. clock e (Suc n))" by blast
  define b0 where "b0 = vitals_set cv HeartRate (slide (vitals_get cv HeartRate) \<lparr>timestamp = clock e 0, value = v0\<rparr>)"
  from updateOne_eq [of cv tb b0 e0 Systolic] obtain v1 e1 where
    s1: "updateOne cv tb (b0, e0) Systolic =
           (vitals_set b0 Systolic (slide (vitals_get cv Systolic) \<lparr>timestamp = clock e0 0, value = v1\<rparr>), e1)"
    and c1: "clock e1 = (\<lambda>n. clock e0 (Suc n))" by blast
  define b1 where "b1 = vitals_set b0 Systolic (slide (vitals_get cv Systolic) \<lparr>timestamp = clock e0 0, value = v1\<rparr>)"
  from updateOne_eq [of cv tb b1 e1 Diastolic] obtain v2 e2 where
    s2: "updateOne cv tb (b1, e1) Diastolic =
           (vitals_set b1 Diastolic (slide (vitals_get cv Diastolic) \<lparr>timestamp = clock e1 0, value = v2\<rparr>), e2)"
    and c2: "clock e2 = (\<lambda>n. clock e1 (Suc n))" by blast
  define b2 where "b2 = vitals_set b1 Diastolic (slide (vitals_get cv Diastolic) \<lparr>timestamp = clock e1 0, value = v2\<rparr>)"
  from updateOne_eq [of cv tb b2 e2 Spo2] obtain v3 e3 where
    s3: "updateOne cv tb (b2, e2) Spo2 =
           (vitals_set b2 Spo2 (slide (vitals_get cv Spo2) \<lparr>timestamp = clock e2 0, value = v3\<rparr>), e3)"
    and c3: "clock e3 = (\<lambda>n. clock e2 (Suc n))" by blast
  define b3 where "b3 = vitals_set b2 Spo2 (slide (vitals_get cv Spo2) \<lparr>timestamp = clock e2 0, value = v3\<rparr>)"
  from updateOne_eq [of cv tb b3 e3 Temperature] obtain v4 e4 where
    s4: "updateOne cv tb (b3, e3) Temperature =
           (vitals_set b3 Temperature (slide (vitals_get cv Temperature) \<lparr>timestamp = clock e3 0, value = v4\<rparr>), e4)"
    and c4: "clock e4 = (\<lambda>n. clock e3 (Suc n))" by blast
  define b4 where "b4 = vitals_set b3 Temperature (slide (vitals_get cv Temperature) \<lparr>timestamp = clock e3 0, value = v4\<rparr>)"
  define vals where "vals = (\<lambda>vt. case vt of HeartRate \<Rightarrow> v0 | Systolic \<Rightarrow> v1
                               | Diastolic \<Rightarrow> v2 | Spo2 \<Rightarrow> v3 | Temperature \<Rightarrow> v4)"
  have fold: "foldl (updateOne cv tb) (cv, e) [HeartRate, Systolic, Diastolic, Spo2, Temperature]
                = (b4, e4)"
    unfolding foldl.simps s0 b0_def [symmetric] s1 b1_def [symmetric] s2 b2_def [symmetric]
      s3 b3_def [symmetric] s4 b4_def [symmetric] ..
  have upd: "updateVitals p s e = (s\<lparr>patientVitals := (patientVitals s)(p \<mapsto> b4)\<rparr>, e4)"
    unfolding updateVitals_def assms option.case Let_def tb_def [symmetric] fold by simp
  have clk: "clock e4 = (\<lambda>n. clock e (n + 5))"
    by (simp add: c0 c1 c2 c3 c4 numeral_eq_Suc)
  have ser: "vitals_get b4 vt =
      slide (vitals_get cv vt) \<lparr>timestamp = clock e (vitalIndex vt), value = vals vt\<rparr>" for vt
    by (cases vt) (simp_all add: b4_def b3_def b2_def b1_def b0_def vals_def c0 c1 c2 c3
          numeral_eq_Suc)
  from upd clk ser show ?thesis by blast
qed

lemma slide_length: "length xs \<le> 10 \<Longrightarrow> length (slide xs s) \<le> 10"
  by (cases xs) (auto simp: slide_def)

lemma slide_set: "set (slide xs s) \<subseteq> insert s (set xs)"
  by (cases xs) (auto simp: slide_def)

lemma slide_sorted:
  assumes "sorted (map timestamp xs)" and "\<forall>x \<in> set xs. timestamp x \<le> timestamp s"
  shows "sorted (map timestamp (slide xs s))"
proof (cases "length xs < 10")
  case True
  with assms show ?thesis by (simp add: slide_def sorted_append)
next
  case False
  have "sorted (map timestamp (tl xs))"
    using assms(1) by (cases xs) simp_all
  moreover have "\<forall>x \<in> set (tl xs). timestamp x \<le> timestamp s"
    using assms(2) by (cases xs) simp_all
  ultimately show ?thesis using False by (simp add: slide_def sorted_append)
qed

lemma monotone_clock_drop:
  assumes "monotone_clock e" and "clock e' = (\<lambda>n. clock e (n + k))"
  shows "monotone_clock e'" and "clock e 0 \<le> clock e' 0"
  using assms by (simp_all add: monotone_clock_def)

lemma ordered_upto_mono: "ordered_upto t b \<Longrightarrow> t \<le> t' \<Longrightarrow> ordered_upto t' b"
  unfolding ordered_upto_def by (meson order_trans)

lemma updateVitals_other:
  "q \<noteq> p \<Longrightarrow> patientVitals (fst (updateVitals q s e)) p = patientVitals s p"
  by (auto simp: updateVitals_def Let_def split: option.splits prod.splits)

lemma updateVitals_clock:
  "\<exists>k. clock (snd (updateVitals q s e)) = (\<lambda>n. clock e (n + k))"
proof (cases "patientVitals s q")
  case None
  then have "clock (snd (updateVitals q s e)) = (\<lambda>n. clock e (n + 0))"
    by (simp add: updateVitals_def)
  then show ?thesis by blast
next
  case (Some cv)
  from updateVitals_series [OF Some, of e] show ?thesis by force
qed

lemma updateVitals_step:
  assumes "patientVitals s p = Some b"
  shows "\<exists>b'. patientVitals (fst (updateVitals q s e)) p = Some b'
           \<and> (window_ok b \<longrightarrow> window_ok b')
           \<and> (monotone_clock e \<longrightarrow> ordered_upto (clock e 0) b \<longrightarrow>
                ordered_upto (clock (snd (updateVitals q s e)) 0) b')"
proof (cases "q = p")
  case False
  from updateVitals_clock [of q s e] obtain k where
    k: "clock (snd (updateVitals q s e)) = (\<lambda>n. clock e (n + k))" by blast
  have "monotone_clock e \<longrightarrow> ordered_upto (clock e 0) b \<longrightarrow>
          ordered_upto (clock (snd (updateVitals q s e)) 0) b"
    using ordered_upto_mono monotone_clock_drop(2) [OF _ k] by blast
  then show ?thesis using False assms by (simp add: updateVitals_other)
next
  case True
  from updateVitals_series [OF assms, of e] obtain b' e' vals where
    u: "updateVitals p s e = (s\<lparr>patientVitals := (patientVitals s)(p \<mapsto> b')\<rparr>, e')"
    and ser: "\<And>vt. vitals_get b' vt =
                slide (vitals_get b vt) \<lparr>timestamp = clock e (vitalIndex vt), value = vals vt\<rparr>"
    and clk: "clock e' = (\<lambda>n. clock e (n + 5))" by blast
  have idx: "vitalIndex vt \<le> 5" for vt by (cases vt) simp_all
  have w: "window_ok b \<longrightarrow> window_ok b'"
    unfolding window_ok_def ser using slide_length by blast
  have o: "ordered_upto (clock e' 0) b'" if m: "monotone_clock e" and ob: "ordered_upto (clock e 0) b"
    unfolding ordered_upto_def
  proof (intro allI conjI)
    fix vt
    let ?s = "\<lparr>timestamp = clock e (vitalIndex vt), value = vals vt\<rparr>"
    have lo: "clock e 0 \<le> clock e (vitalIndex vt)"
      using m by (simp add: monotone_clock_def)
    have hi: "clock e (vitalIndex vt) \<le> clock e' 0"
      using m idx [of vt] by (simp add: monotone_clock_def clk)
    have old: "\<forall>x \<in> set (vitals_get b vt). timestamp x \<le> clock e 0"
      using ob by (simp add: ordered_upto_def)
    have "\<forall>x \<in> set (vitals_get b vt). timestamp x \<le> timestamp ?s"
      using old lo by auto
    moreover have "sorted (map timestamp (vitals_get b vt))"
      using ob by (simp add: ordered_upto_def)
    ultimately show "sorted (map timestamp (vitals_get b' vt))"
      unfolding ser by (rule slide_sorted [rotated])
    show "\<forall>x \<in> set (vitals_get b' vt). timestamp x \<le> clock e' 0"
    proof
      fix x assume "x \<in> set (vitals_get b' vt)"
      then have "x = ?s \<or> x \<in> set (vitals_get b vt)"
        unfolding ser using slide_set by fastforce
      then show "timestamp x \<le> clock e' 0"
        using old lo hi by auto
    qed
  qed
  show ?thesis using True u w o by auto
qed

lemma updateAll_invariant:
  assumes "patientVitals s p = Some b" and "updateAll ps s e = (s2, e2)"
  shows "\<exists>b2. patientVitals s2 p = Some b2
           \<and> (window_ok b \<longrightarrow> window_ok b2)
           \<and> (monotone_clock e \<longrightarrow> ordered_upto (clock e 0) b \<longrightarrow>
                ordered_upto (clock e2 0) b2)"
  using assms
proof (induction ps arbitrary: s e b)
  case Nil
  then show ?case by auto
next
  case (Cons q ps)
  obtain s' e' where u: "updateVitals q s e = (s', e')" by force
  from updateVitals_step [OF Cons.prems(1), of q e] u obtain b' where
    b': "patientVitals s' p = Some b'"
    and w: "window_ok b \<longrightarrow> window_ok b'"
    and o: "monotone_clock e \<longrightarrow> ordered_upto (clock e 0) b \<longrightarrow> ordered_upto (clock e' 0) b'"
    by auto
  from updateVitals_clock [of q s e] u obtain k where k: "clock e' = (\<lambda>n. clock e (n + k))"
    by auto
  have m: "monotone_clock e \<longrightarrow> monotone_clock e'"
    using monotone_clock_drop(1) [OF _ k] by blast
  have run: "updateAll ps s' e' = (s2, e2)" using Cons.prems(2) u by simp
  from Cons.IH [OF b' run] obtain b2 where
    "patientVitals s2 p = Some b2"
    "window_ok b' \<longrightarrow> window_ok b2"
    "monotone_clock e' \<longrightarrow> ordered_upto (clock e' 0) b' \<longrightarrow> ordered_upto (clock e2 0) b2"
    by blast
  with w o m show ?case by blast
qed

lemma initializeAllVitals_Some:
  assumes "initializeAllVitals trend e = Some (b, e')"
  shows "length (vitals_get b vt) = 10"
    and "map timestamp (vitals_get b vt)
           = map (\<lambda>i. clock e (vitalIndex vt) - (9 - int i) * 30000) [0..<10]"
    and "clock e' = (\<lambda>n. clock e (n + 5))"
proof -
  from assms obtain hr e1 sy e2 di e3 sp e4 te where
    g0: "generateVitalHistory HeartRate 10 30000 trend e = Some (hr, e1)" and
    g1: "generateVitalHistory Systolic 10 30000 trend e1 = Some (sy, e2)" and
    g2: "generateVitalHistory Diastolic 10 30000 trend e2 = Some (di, e3)" and
    g3: "generateVitalHistory Spo2 10 30000 trend e3 = Some (sp, e4)" and
    g4: "generateVitalHistory Temperature 10 30000 trend e4 = Some (te, e')" and
    b: "b = \<lparr>heartRate = hr, systolic = sy, diastolic = di, spo2 = sp, temperature = te\<rparr>"
    by (auto simp: initializeAllVitals_def split: option.splits)
  note s0 = generateVitalHistory_shape [OF g0]
  note s1 = generateVitalHistory_shape [OF g1]
  note s2 = generateVitalHistory_shape [OF g2]
  note s3 = generateVitalHistory_shape [OF g3]
  note s4 = generateVitalHistory_shape [OF g4]
  show "length (vitals_get b vt) = 10"
    by (cases vt) (simp_all add: b s0(1) s1(1) s2(1) s3(1) s4(1))
  show "clock e' = (\<lambda>n. clock e (n + 5))"
    by (simp add: s0(3) s1(3) s2(3) s3(3) s4(3) numeral_eq_Suc)
  show "map timestamp (vitals_get b vt)
           = map (\<lambda>i. clock e (vitalIndex vt) - (9 - int i) * 30000) [0..<10]"
    by (cases vt) (simp_all add: b s0(2,3) s1(2,3) s2(2,3) s3(2,3) s4(2) numeral_eq_Suc)
qed

lemma initializeAllVitals_returns:
  assumes "nonzero_draws e"
  shows "\<exists>b e'. initializeAllVitals trend e = Some (b, e')"
proof -
  from generateVitalHistory_returns [OF assms] obtain hr e1 where
    g0: "generateVitalHistory HeartRate 10 30000 trend e = Some (hr, e1)" and n1: "nonzero_draws e1"
    by blast
  from generateVitalHistory_returns [OF n1] obtain sy e2 where
    g1: "generateVitalHistory Systolic 10 30000 trend e1 = Some (sy, e2)" and n2: "nonzero_draws e2"
    by blast
  from generateVitalHistory_returns [OF n2] obtain di e3 where
    g2: "generateVitalHistory Diastolic 10 30000 trend e2 = Some (di, e3)" and n3: "nonzero_draws e3"
    by blast
  from generateVitalHistory_returns [OF n3] obtain sp e4 where
    g3: "generateVitalHistory Spo2 10 30000 trend e3 = Some (sp, e4)" and n4: "nonzero_draws e4"
    by blast
  from generateVitalHistory_returns [OF n4] obtain te e5 where
    g4: "generateVitalHistory Temperature 10 30000 trend e4 = Some (te, e5)"
    by blast
  show ?thesis by (simp add: initializeAllVitals_def g0 g1 g2 g3 g4)
qed

lemma initializeVitals_Some:
  assumes "initializeVitals p trend s e = Some (s1, e1)"
  shows "\<exists>b. initializeAllVitals trend e = Some (b, e1) \<and> patientVitals s1 p = Some b"
  using assms by (auto simp: initializeVitals_def split: option.splits)

lemma initializeVitals_returns:
  assumes "nonzero_draws e"
  shows "\<exists>r. initializeVitals p trend s e = Some r"
  using initializeAllVitals_returns [OF assms, of trend]
  by (auto simp: initializeVitals_def)

lemma initial_window:
  assumes "initializeAllVitals trend e = Some (b, e')"
  shows "window_ok b" and "monotone_clock e \<Longrightarrow> ordered_upto (clock e' 0) b"
proof -
  show "window_ok b"
    unfolding window_ok_def using initializeAllVitals_Some(1) [OF assms] by simp
  assume m: "monotone_clock e"
  show "ordered_upto (clock e' 0) b"
    unfolding ordered_upto_def
  proof (intro allI conjI)
    fix vt
    let ?c = "clock e (vitalIndex vt)"
    have ts: "map timestamp (vitals_get b vt) = map (\<lambda>i. ?c - (9 - int i) * 30000) [0..<10]"
      by (rule initializeAllVitals_Some(2) [OF assms])
    show "sorted (map timestamp (vitals_get b vt))"
      unfolding ts upt_10 by simp
    have idx: "vitalIndex vt \<le> 5" by (cases vt) simp_all
    have hi: "?c \<le> clock e' 0"
      using m idx by (simp add: monotone_clock_def initializeAllVitals_Some(3) [OF assms])
    have "\<forall>t \<in> set (map timestamp (vitals_get b vt)). t \<le> ?c"
      unfolding ts upt_10 by simp
    then show "\<forall>x \<in> set (vitals_get b vt). timestamp x \<le> clock e' 0"
      using hi by fastforce
  qed
qed

lemma nonzero_rewind: "nonzero_draws rewind_env"
  by (simp add: nonzero_draws_def rewind_env_def)

lemma monotone_steady: "monotone_clock steady_env"
  by (simp add: monotone_clock_def steady_env_def)

lemma started_eq: "initializeVitals ''p1'' TrendNormal two_patients steady_env = Some started"
  using initializeVitals_returns [OF nonzero_steady, of "''p1''" TrendNormal two_patients]
  by (auto simp: started_def)

text \<open>
  Claim C4, as the code has it. After \<open>initializeVitals\<close> for a patient and any
  sequence of \<open>updateVitals\<close> calls (for this or any other patient id), every series
  of the patient holds at most 10 samples; if the clock readings never decrease, the
  timestamps of every series are non-decreasing in insertion order. One update appends
  one sample, stamped with the clock reading taken for that vital, and drops the oldest
  sample exactly when the series already held 10.
\<close>

theorem series_window_after_updates:
  assumes "initializeVitals p trend s e = Some (s1, e1)"
    and "updateAll ps s1 e1 = (s2, e2)"
  shows "(\<exists>b. patientVitals s2 p = Some b
            \<and> (\<forall>vt. length (vitals_get b vt) \<le> 10)
            \<and> (monotone_clock e \<longrightarrow> (\<forall>vt. sorted (map timestamp (vitals_get b vt)))))
         \<and> (patientVitals st q = Some cv \<longrightarrow>
              (\<exists>b'. patientVitals (fst (updateVitals q st en)) q = Some b'
                 \<and> (\<forall>vt. \<exists>smp. timestamp smp = clock en (vitalIndex vt)
                       \<and> vitals_get b' vt =
                           (if length (vitals_get cv vt) < 10 then vitals_get cv vt @ [smp]
                            else tl (vitals_get cv vt) @ [smp]))))"
proof
  from initializeVitals_Some [OF assms(1)] obtain b where
    i: "initializeAllVitals trend e = Some (b, e1)" and b: "patientVitals s1 p = Some b" by blast
  from updateAll_invariant [OF b assms(2)] obtain b2 where
    b2: "patientVitals s2 p = Some b2"
    and w: "window_ok b \<longrightarrow> window_ok b2"
    and o: "monotone_clock e1 \<longrightarrow> ordered_upto (clock e1 0) b \<longrightarrow> ordered_upto (clock e2 0) b2"
    by blast
  have len: "\<forall>vt. length (vitals_get b2 vt) \<le> 10"
    using w initial_window(1) [OF i] by (simp add: window_ok_def)
  have srt: "monotone_clock e \<longrightarrow> (\<forall>vt. sorted (map timestamp (vitals_get b2 vt)))"
  proof
    assume m: "monotone_clock e"
    have "monotone_clock e1"
      by (rule monotone_clock_drop(1) [OF m initializeAllVitals_Some(3) [OF i]])
    with o initial_window(2) [OF i m] have "ordered_upto (clock e2 0) b2" by blast
    then show "\<forall>vt. sorted (map timestamp (vitals_get b2 vt))"
      by (simp add: ordered_upto_def)
  qed
  from b2 len srt
  show "\<exists>b. patientVitals s2 p = Some b
            \<and> (\<forall>vt. length (vitals_get b vt) \<le> 10)
            \<and> (monotone_clock e \<longrightarrow> (\<forall>vt. sorted (map timestamp (vitals_get b vt))))"
    by blast
next
  show "patientVitals st q = Some cv \<longrightarrow>
              (\<exists>b'. patientVitals (fst (updateVitals q st en)) q = Some b'
                 \<and> (\<forall>vt. \<exists>smp. timestamp smp = clock en (vitalIndex vt)
                       \<and> vitals_get b' vt =
                           (if length (vitals_get cv vt) < 10 then vitals_get cv vt @ [smp]
                            else tl (vitals_get cv vt) @ [smp])))"
  proof
    assume a: "patientVitals st q = Some cv"
    from updateVitals_series [OF a, of en] obtain b' e' vals where
      u: "updateVitals q st en = (st\<lparr>patientVitals := (patientVitals st)(q \<mapsto> b')\<rparr>, e')"
      and ser: "\<And>vt. vitals_get b' vt =
                slide (vitals_get cv vt) \<lparr>timestamp = clock en (vitalIndex vt), value = vals vt\<rparr>"
      by blast
    have "\<exists>smp. timestamp smp = clock en (vitalIndex vt)
                       \<and> vitals_get b' vt =
                           (if length (vitals_get cv vt) < 10 then vitals_get cv vt @ [smp]
                            else tl (vitals_get cv vt) @ [smp])" for vt
      by (rule exI [of _ "\<lparr>timestamp = clock en (vitalIndex vt), value = vals vt\<rparr>"])
         (simp add: ser slide_def)
    then show "\<exists>b'. patientVitals (fst (updateVitals q st en)) q = Some b'
                 \<and> (\<forall>vt. \<exists>smp. timestamp smp = clock en (vitalIndex vt)
                       \<and> vitals_get b' vt =
                           (if length (vitals_get cv vt) < 10 then vitals_get cv vt @ [smp]
                            else tl (vitals_get cv vt) @ [smp]))"
      using u by simp
  qed
qed

theorem series_window_after_updates_witness:
  "initializeVitals ''p1'' TrendNormal two_patients steady_env = Some started
   \<and> monotone_clock steady_env
   \<and> patientVitals two_patients ''p1'' = Some (hr_only 72)
   \<and> (\<exists>b. patientVitals (fst ticked) ''p1'' = Some b
          \<and> list_all (\<lambda>vt. length (vitals_get b vt) \<le> 10
                            \<and> sorted (map timestamp (vitals_get b vt)))
               [HeartRate, Systolic, Diastolic, Spo2, Temperature])
   \<and> (\<exists>b' smp. patientVitals (fst (updateVitals ''p1'' two_patients steady_env)) ''p1'' = Some b'
          \<and> timestamp smp = 300000 \<and> heartRate b' = one_sample 72 @ [smp])"
proof -
  have i: "initializeVitals ''p1'' TrendNormal two_patients steady_env
             = Some (fst started, snd started)"
    using started_eq by simp
  have r: "updateAll [''p1'', ''p2'', ''p1''] (fst started) (snd started)
             = (fst ticked, snd ticked)"
    by (simp add: ticked_def)
  have h: "patientVitals two_patients ''p1'' = Some (hr_only 72)"
    by (simp add: two_patients_def)
  note t = series_window_after_updates [OF i r, of two_patients "''p1''" "hr_only 72" steady_env]
  from t monotone_steady obtain b where
    b: "patientVitals (fst ticked) ''p1'' = Some b"
    and l: "\<forall>vt. length (vitals_get b vt) \<le> 10"
    and s: "\<forall>vt. sorted (map timestamp (vitals_get b vt))" by blast
  from t h obtain b' where
    b': "patientVitals (fst (updateVitals ''p1'' two_patients steady_env)) ''p1'' = Some b'"
    and f: "\<forall>vt. \<exists>smp. timestamp smp = clock steady_env (vitalIndex vt)
                       \<and> vitals_get b' vt =
                           (if length (vitals_get (hr_only 72) vt) < 10
                            then vitals_get (hr_only 72) vt @ [smp]
                            else tl (vitals_get (hr_only 72) vt) @ [smp])" by blast
  from f [rule_format, of HeartRate] obtain smp where
    "timestamp smp = 300000" "heartRate b' = one_sample 72 @ [smp]"
    by (auto simp: steady_env_def hr_only_def one_sample_def)
  with b' have last: "\<exists>b' smp. patientVitals (fst (updateVitals ''p1'' two_patients steady_env)) ''p1'' = Some b'
          \<and> timestamp smp = 300000 \<and> heartRate b' = one_sample 72 @ [smp]" by blast
  from b l s have mid: "\<exists>b. patientVitals (fst ticked) ''p1'' = Some b
          \<and> list_all (\<lambda>vt. length (vitals_get b vt) \<le> 10
                            \<and> sorted (map timestamp (vitals_get b vt)))
               [HeartRate, Systolic, Diastolic, Spo2, Temperature]"
    by (auto simp del: vitals_get.simps)
  from started_eq monotone_steady h mid last show ?thesis by blast
qed

text \<open>
  Without the assumption on the clock the timestamps need not be ordered: the code
  stamps each sample with the current \<open>Date.now()\<close> and never compares it with the
  stored ones. When the wall clock is set back by one second between initialization
  (reading 1700000300000) and the next update (reading 1700000299000), the heart-rate
  series ends with the timestamps 1700000300000, 1700000299000.
\<close>

theorem series_timestamps_counterexample:
  "initializeVitals ''p1'' TrendNormal no_patients rewind_env \<noteq> None
   \<and> map_option (\<lambda>b. map timestamp (heartRate b)) (patientVitals rewound ''p1'')
       = Some [1700000060000, 1700000090000, 1700000120000, 1700000150000, 1700000180000,
          1700000210000, 1700000240000, 1700000270000, 1700000300000, 1700000299000]
   \<and> \<not> sorted [1700000060000, 1700000090000, 1700000120000, 1700000150000, 1700000180000,
          1700000210000, 1700000240000, 1700000270000, 1700000300000, 1700000299000 :: int]"
proof -
  from initializeVitals_returns [OF nonzero_rewind, of "''p1''" TrendNormal no_patients]
  obtain s1 e1 where i: "initializeVitals ''p1'' TrendNormal no_patients rewind_env = Some (s1, e1)"
    by force
  from initializeVitals_Some [OF i] obtain b where
    a: "initializeAllVitals TrendNormal rewind_env = Some (b, e1)"
    and b: "patientVitals s1 ''p1'' = Some b" by blast
  have len: "length (heartRate b) = 10"
    using initializeAllVitals_Some(1) [OF a, of HeartRate] by simp
  have ts: "map timestamp (heartRate b)
              = [1700000030000, 1700000060000, 1700000090000, 1700000120000, 1700000150000,
          1700000180000, 1700000210000, 1700000240000, 1700000270000, 1700000300000]"
    using initializeAllVitals_Some(2) [OF a, of HeartRate]
    by (simp add: upt_10 rewind_env_def)
  have c: "clock e1 0 = 1700000299000"
    using initializeAllVitals_Some(3) [OF a] by (simp add: rewind_env_def)
  from updateVitals_series [OF b, of e1] obtain b' e' vals where
    u: "updateVitals ''p1'' s1 e1 = (s1\<lparr>patientVitals := (patientVitals s1)(''p1'' \<mapsto> b')\<rparr>, e')"
    and ser: "\<And>vt. vitals_get b' vt =
                slide (vitals_get b vt) \<lparr>timestamp = clock e1 (vitalIndex vt), value = vals vt\<rparr>"
    by blast
  have "heartRate b' = tl (heartRate b) @ [\<lparr>timestamp = 1700000299000, value = vals HeartRate\<rparr>]"
    using ser [of HeartRate] len c by (simp add: slide_def)
  then have "map timestamp (heartRate b')
      = [1700000060000, 1700000090000, 1700000120000, 1700000150000, 1700000180000,
          1700000210000, 1700000240000, 1700000270000, 1700000300000, 1700000299000]"
    using ts by (simp add: map_tl)
  moreover have "patientVitals rewound ''p1'' = Some b'"
    by (simp add: rewound_def i u)
  ultimately show ?thesis using i by simp
qed

end
